(* ===== verification/Prelude.thy ===== *)
theory Prelude
  imports Main "HOL-Library.Word"
begin

unbundle bit_operations_syntax

text \<open>
  Shared vocabulary of the development: the machine integer types of the Rust sources, the
  outcome of running kernel code (return, panic, or keep spinning on a device), sequencing of
  such computations, a rule set for predicates that a computation keeps, and the lemmas on
  bytes of words and on lists that several components use.

  Arithmetic is that of the release profile, the one \<open>make run\<close> builds: \<open>+\<close> and
  \<open>*\<close> on \<open>u64\<close> and \<open>usize\<close> wrap, and \<open>debug_assert!\<close> is not evaluated.
\<close>

type_synonym u8 = "8 word"
type_synonym u32 = "32 word"
type_synonym u64 = "64 word"
type_synonym usize = "64 word"

named_theorems keeps_intros \<open>rules that show a computation keeps a state predicate\<close>
named_theorems run_simps \<open>equations that execute a computation on a state\<close>

section \<open>Computations\<close>

text \<open>
  A panic carries what the panic handler can print: the message and the source location.
\<close>

record panic_info =
  panic_message :: string
  panic_file :: string
  panic_line :: nat

datatype ('a, 's) outcome =
    Return 'a 's
  | Panic panic_info 's
  | Hang 's

type_synonym ('s, 'a) comp = "'s \<Rightarrow> ('a, 's) outcome"

primrec final_state :: "('a, 's) outcome \<Rightarrow> 's" where
  "final_state (Return a s) = s"
| "final_state (Panic i s) = s"
| "final_state (Hang s) = s"

primrec returned :: "('a, 's) outcome \<Rightarrow> bool" where
  "returned (Return a s) = True"
| "returned (Panic i s) = False"
| "returned (Hang s) = False"

definition ret :: "'a \<Rightarrow> ('s, 'a) comp" where
  "ret a = (\<lambda>s. Return a s)"

definition bind_comp :: "('s, 'a) comp \<Rightarrow> ('a \<Rightarrow> ('s, 'b) comp) \<Rightarrow> ('s, 'b) comp" where
  "bind_comp m f = (\<lambda>s. case m s of
      Return a s' \<Rightarrow> f a s'
    | Panic i s' \<Rightarrow> Panic i s'
    | Hang s' \<Rightarrow> Hang s')"

definition then_comp :: "('s, 'a) comp \<Rightarrow> ('s, 'b) comp \<Rightarrow> ('s, 'b) comp" where
  "then_comp m n = bind_comp m (\<lambda>_. n)"

definition skip :: "('s, unit) comp" where
  "skip = ret ()"

definition gets :: "('s \<Rightarrow> 'a) \<Rightarrow> ('s, 'a) comp" where
  "gets f = (\<lambda>s. Return (f s) s)"

definition modify :: "('s \<Rightarrow> 's) \<Rightarrow> ('s, unit) comp" where
  "modify f = (\<lambda>s. Return () (f s))"

definition panic_at :: "string \<Rightarrow> nat \<Rightarrow> string \<Rightarrow> ('s, 'a) comp" where
  "panic_at file line msg =
     Panic \<lparr>panic_message = msg, panic_file = file, panic_line = line\<rparr>"

text \<open>A sequence of statements.\<close>

primrec block :: "('s, unit) comp list \<Rightarrow> ('s, unit) comp" where
  "block [] = skip"
| "block (m # ms) = then_comp m (block ms)"

lemma ret_run [run_simps]: "ret a s = Return a s"
  by (simp add: ret_def)

lemma skip_run [run_simps]: "skip s = Return () s"
  by (simp add: skip_def ret_def)

lemma gets_run [run_simps]: "gets f s = Return (f s) s"
  by (simp add: gets_def)

lemma modify_run [run_simps]: "modify f s = Return () (f s)"
  by (simp add: modify_def)

lemma bind_run [run_simps]: "m s = Return a s' \<Longrightarrow> bind_comp m f s = f a s'"
  by (simp add: bind_comp_def)

lemma then_run [run_simps]: "m s = Return a s' \<Longrightarrow> then_comp m n s = n s'"
  by (simp add: then_comp_def bind_comp_def)

lemma bind_panic [run_simps]: "m s = Panic i s' \<Longrightarrow> bind_comp m f s = Panic i s'"
  by (simp add: bind_comp_def)

lemma then_panic [run_simps]: "m s = Panic i s' \<Longrightarrow> then_comp m n s = Panic i s'"
  by (simp add: then_comp_def bind_comp_def)

lemma panic_at_run [run_simps]:
  "panic_at file line msg s =
     Panic \<lparr>panic_message = msg, panic_file = file, panic_line = line\<rparr> s"
  by (simp add: panic_at_def)

lemma then_hang: "m s = Hang s' \<Longrightarrow> then_comp m n s = Hang s'"
  by (simp add: then_comp_def bind_comp_def)

lemma then_assoc: "then_comp m (then_comp n p) = then_comp (then_comp m n) p"
  by (rule ext) (simp add: then_comp_def bind_comp_def split: outcome.splits)

lemma bind_returnE:
  assumes "bind_comp m f s = Return b s''"
  obtains a s' where "m s = Return a s'" and "f a s' = Return b s''"
  using assms by (auto simp: bind_comp_def split: outcome.splits)

lemma then_returnE:
  assumes "then_comp m n s = Return b s''"
  obtains a s' where "m s = Return a s'" and "n s' = Return b s''"
  using assms unfolding then_comp_def by (rule bind_returnE)

lemma block_append: "block (ms @ ns) s = then_comp (block ms) (block ns) s"
  by (induction ms arbitrary: s)
    (auto simp: skip_def ret_def then_comp_def bind_comp_def split: outcome.splits)

subsection \<open>Predicates that a computation keeps\<close>

text \<open>
  \<open>keeps P m\<close>: started in a state with \<open>P\<close>, the computation leaves a state with \<open>P\<close>
  however it ends, so also where it panics or is still polling a device.
\<close>

definition keeps :: "('s \<Rightarrow> bool) \<Rightarrow> ('s, 'a) comp \<Rightarrow> bool" where
  "keeps P m \<longleftrightarrow> (\<forall>s. P s \<longrightarrow> P (final_state (m s)))"

lemma keepsI: "(\<And>s. P s \<Longrightarrow> P (final_state (m s))) \<Longrightarrow> keeps P m"
  by (simp add: keeps_def)

lemma keepsD: "keeps P m \<Longrightarrow> P s \<Longrightarrow> P (final_state (m s))"
  by (simp add: keeps_def)

lemma keeps_Return: "keeps P m \<Longrightarrow> m s = Return a s' \<Longrightarrow> P s \<Longrightarrow> P s'"
  by (metis final_state.simps(1) keepsD)

lemma keeps_ret [keeps_intros]: "keeps P (ret a)"
  by (simp add: keeps_def ret_def)

lemma keeps_skip [keeps_intros]: "keeps P skip"
  by (simp add: skip_def keeps_ret)

lemma keeps_gets [keeps_intros]: "keeps P (gets f)"
  by (simp add: keeps_def gets_def)

lemma keeps_panic [keeps_intros]: "keeps P (panic_at file line msg)"
  by (simp add: keeps_def panic_at_def)

lemma keeps_modify: "(\<And>s. P s \<Longrightarrow> P (f s)) \<Longrightarrow> keeps P (modify f)"
  by (simp add: keeps_def modify_def)

lemma keeps_bind [keeps_intros]:
  assumes "keeps P m" and "\<And>a. keeps P (f a)"
  shows "keeps P (bind_comp m f)"
proof (rule keepsI)
  fix s assume "P s"
  then show "P (final_state (bind_comp m f s))"
    using keepsD [OF assms(1)] keepsD [OF assms(2)]
    by (cases "m s") (auto simp: bind_comp_def dest: keepsD [OF assms(1)])
qed

lemma keeps_then [keeps_intros]: "keeps P m \<Longrightarrow> keeps P n \<Longrightarrow> keeps P (then_comp m n)"
  unfolding then_comp_def by (intro keeps_bind)

lemma keeps_if [keeps_intros]: "keeps P m \<Longrightarrow> keeps P n \<Longrightarrow> keeps P (if b then m else n)"
  by simp

lemma keeps_block [keeps_intros]: "list_all (keeps P) ms \<Longrightarrow> keeps P (block ms)"
  by (induction ms) (auto intro: keeps_intros)

text \<open>A computation preserves a predicate when it holds again whenever the call returns.\<close>

definition preserves :: "('s \<Rightarrow> bool) \<Rightarrow> ('s, 'a) comp \<Rightarrow> bool" where
  "preserves P m \<longleftrightarrow> (\<forall>s a s'. P s \<longrightarrow> m s = Return a s' \<longrightarrow> P s')"

lemma preservesD: "preserves P m \<Longrightarrow> P s \<Longrightarrow> m s = Return a s' \<Longrightarrow> P s'"
  by (auto simp: preserves_def)

lemma preserves_bind: "preserves P m \<Longrightarrow> (\<And>a. preserves P (f a)) \<Longrightarrow> preserves P (bind_comp m f)"
  unfolding preserves_def by (metis bind_returnE)

lemma preserves_then: "preserves P m \<Longrightarrow> preserves P n \<Longrightarrow> preserves P (then_comp m n)"
  unfolding then_comp_def by (rule preserves_bind)

lemma preserves_if: "(b \<Longrightarrow> preserves P m) \<Longrightarrow> (\<not> b \<Longrightarrow> preserves P n) \<Longrightarrow> preserves P (if b then m else n)"
  by simp

lemma preserves_panic: "preserves P (panic_at f l m)"
  by (simp add: preserves_def panic_at_def)

lemma preserves_ret: "preserves P (ret a)" "preserves P skip"
  by (simp_all add: preserves_def ret_def skip_def)

lemma preserves_state: "(\<And>s. \<exists>a. m s = Return a s) \<Longrightarrow> preserves P m"
  unfolding preserves_def by (metis outcome.inject(1))

lemma keeps_preserves: "keeps P m \<Longrightarrow> preserves P m"
  unfolding preserves_def by (metis keepsD final_state.simps(1))

lemmas preserves_intros = preserves_bind preserves_then preserves_if preserves_panic preserves_ret

section \<open>Bytes of 64-bit words\<close>

definition byte_of :: "u64 \<Rightarrow> nat \<Rightarrow> u8" where
  "byte_of w i = ucast (drop_bit (8 * i) w)"

definition byte_at :: "nat \<Rightarrow> u8 \<Rightarrow> u64" where
  "byte_at i b = push_bit (8 * i) (ucast b)"

lemma bit_byte_of: "bit (byte_of w i) k \<longleftrightarrow> k < 8 \<and> bit w (8 * i + k)"
  by (auto simp: byte_of_def bit_simps)

lemma bit_byte_at: "bit (byte_at i b) k \<longleftrightarrow> k < 64 \<and> 8 * i \<le> k \<and> bit b (k - 8 * i)"
  by (auto simp: byte_at_def bit_simps)

lemma byte_of_0 [simp]: "byte_of 0 i = 0"
  by (simp add: byte_of_def)

lemma byte_of_OR: "byte_of (v OR w) i = byte_of v i OR byte_of w i"
  by (rule bit_eqI) (auto simp: bit_byte_of bit_simps)

lemma byte_of_AND: "byte_of (v AND w) i = byte_of v i AND byte_of w i"
  by (rule bit_eqI) (auto simp: bit_byte_of bit_simps)

lemma byte_of_byte_at:
  assumes "i < 8" and "j < 8"
  shows "byte_of (byte_at i b) j = (if i = j then b else 0)"
proof (rule bit_word_eqI)
  fix k assume "k < LENGTH(8)"
  then have k: "k < 8" by simp
  show "bit (byte_of (byte_at i b) j) k \<longleftrightarrow> bit (if i = j then b else 0) k"
  proof (cases "i = j")
    case True
    with k assms show ?thesis by (simp add: bit_byte_of bit_byte_at)
  next
    case False
    have "\<not> (8 * i \<le> 8 * j + k \<and> bit b (8 * j + k - 8 * i))"
    proof (cases "i < j")
      case True
      then have "8 * j + k - 8 * i \<ge> 8" by arith
      then show ?thesis using bit_imp_le_length [of b "8 * j + k - 8 * i"] by auto
    next
      case ij: False
      with False k have "8 * j + k < 8 * i" by arith
      then show ?thesis by simp
    qed
    with False show ?thesis by (auto simp: bit_byte_of bit_byte_at)
  qed
qed

lemma u64_eq_bytesI:
  assumes "\<And>i. i < 8 \<Longrightarrow> byte_of v i = byte_of w i"
  shows "v = w"
proof (rule bit_word_eqI)
  fix n assume "n < LENGTH(64)"
  then have n: "n div 8 < 8" and k: "n mod 8 < 8" by auto
  have split: "8 * (n div 8) + n mod 8 = n" by simp
  from assms [OF n] have "bit (byte_of v (n div 8)) (n mod 8) = bit (byte_of w (n div 8)) (n mod 8)"
    by simp
  with k show "bit v n = bit w n" unfolding bit_byte_of split by simp
qed

section \<open>Powers of two and alignment\<close>


lemma nat_and_pred_0: "n AND (n - 1) = 0 \<Longrightarrow> 0 < n \<Longrightarrow> \<exists>k. n = 2 ^ k" for n :: nat
proof (induction n rule: less_induct)
  case (less n)
  show ?case
  proof (cases "even n")
    case True
    then obtain m where m: "n = 2 * m" by blast
    with less.prems have pos: "0 < m" by simp
    have "n div 2 = m" "(n - 1) div 2 = m - 1" using m pos by presburger+
    then have "n AND (n - 1) = 2 * (m AND (m - 1))"
      using and_rec [of n "n - 1"] True by simp
    with less.prems have "m AND (m - 1) = 0" by simp
    with less.IH [of m] m pos obtain k where "m = 2 ^ k" by auto
    with m show ?thesis by (auto intro: exI [of _ "Suc k"])
  next
    case False
    then have "(n - 1) div 2 = n div 2" "even (n - 1)" by presburger+
    then have "n AND (n - 1) = 2 * (n div 2)"
      using and_rec [of n "n - 1"] by simp
    with less.prems False have "n = 1" by presburger
    then show ?thesis by (auto intro: exI [of _ 0])
  qed
qed

lemma unat_pow2: "k < 64 \<Longrightarrow> unat (2 ^ k :: u64) = 2 ^ k"
  by transfer simp

lemma pow2_minus_1_mask: "(2 ^ k - 1 :: u64) = mask k"
  by (simp add: mask_eq_decr_exp)

lemma unat_and_low: "k < 64 \<Longrightarrow> unat (x AND (2 ^ k - 1) :: u64) = unat x mod 2 ^ k"
  unfolding pow2_minus_1_mask
  by (simp add: take_bit_eq_mask [symmetric] take_bit_eq_mod unat_mod_distrib unat_pow2)

lemma unat_and_high: 
  assumes k: "k < 64"
  shows "unat (x AND NOT (2 ^ k - 1) :: u64) = unat x - unat x mod 2 ^ k"
proof -
  have "NOT x AND (x AND mask k) = 0"
    by (simp add: bit_eq_iff bit_simps)
  then have "x - (x AND mask k) = x AND NOT (x AND mask k)"
    by (rule disjunctive_diff_eq_and_not)
  also have "\<dots> = x AND NOT (mask k)"
    by (auto simp: bit_eq_iff bit_simps)
  finally have "x AND NOT (mask k) = x - (x AND mask k)" by simp
  moreover have "unat (x AND mask k) = unat x mod 2 ^ k"
    using unat_and_low [OF k, of x] by (simp add: pow2_minus_1_mask)
  moreover have "x AND mask k \<le> x" by (rule word_and_le2)
  ultimately show ?thesis
    by (simp add: pow2_minus_1_mask unat_sub)
qed

end
