(* ===== verification/Registers.thy ===== *)
theory Registers
  imports Prelude
begin

text \<open>
  The saved register state: \<open>TrapFrame\<close> of \<open>crates/kernel/src/trap.rs\<close>,
  \<open>TaskContext\<close> of \<open>crates/kernel/src/sched/task.rs\<close> and the macro
  \<open>copy_gpr_fields!\<close> of \<open>crates/kernel/src/arch/register.rs\<close>.

  \<open>TaskContext\<close> is \<open>TrapFrame\<close> with the two CSR fields appended, so it is modelled as the
  record extension; the macro, which works on any two structs with these field names, is a
  function on record schemes.
\<close>

record TrapFrame =
  ra :: u64
  t0 :: u64
  t1 :: u64
  t2 :: u64
  t3 :: u64
  t4 :: u64
  t5 :: u64
  t6 :: u64
  a0 :: u64
  a1 :: u64
  a2 :: u64
  a3 :: u64
  a4 :: u64
  a5 :: u64
  a6 :: u64
  a7 :: u64
  s0 :: u64
  s1 :: u64
  s2 :: u64
  s3 :: u64
  s4 :: u64
  s5 :: u64
  s6 :: u64
  s7 :: u64
  s8 :: u64
  s9 :: u64
  s10 :: u64
  s11 :: u64
  gp :: u64
  tp :: u64
  sp :: u64

record TaskContext = TrapFrame +
  mepc :: u64
  mstatus :: u64

definition copy_gpr_fields :: "'a TrapFrame_scheme \<Rightarrow> 'b TrapFrame_scheme \<Rightarrow> 'b TrapFrame_scheme" where
  "copy_gpr_fields src dst = dst\<lparr>
    ra := ra src,
    t0 := t0 src,
    t1 := t1 src,
    t2 := t2 src,
    t3 := t3 src,
    t4 := t4 src,
    t5 := t5 src,
    t6 := t6 src,
    a0 := a0 src,
    a1 := a1 src,
    a2 := a2 src,
    a3 := a3 src,
    a4 := a4 src,
    a5 := a5 src,
    a6 := a6 src,
    a7 := a7 src,
    s0 := s0 src,
    s1 := s1 src,
    s2 := s2 src,
    s3 := s3 src,
    s4 := s4 src,
    s5 := s5 src,
    s6 := s6 src,
    s7 := s7 src,
    s8 := s8 src,
    s9 := s9 src,
    s10 := s10 src,
    s11 := s11 src,
    gp := gp src,
    tp := tp src,
    sp := sp src\<rparr>"

definition TaskContext_new_mmode :: "u64 \<Rightarrow> u64 \<Rightarrow> TaskContext" where
  "TaskContext_new_mmode entry_point stack_top = \<lparr>
     ra = 0, t0 = 0, t1 = 0, t2 = 0, t3 = 0, t4 = 0, t5 = 0, t6 = 0, a0 = 0, a1 = 0, a2 = 0,
     a3 = 0, a4 = 0, a5 = 0, a6 = 0, a7 = 0, s0 = 0, s1 = 0, s2 = 0, s3 = 0, s4 = 0, s5 = 0,
     s6 = 0, s7 = 0, s8 = 0, s9 = 0, s10 = 0, s11 = 0, gp = 0, tp = 0, sp = stack_top,
     mepc = entry_point,
     mstatus = push_bit 11 3 OR push_bit 7 1\<rparr>"

definition TaskContext_new_umode :: "u64 \<Rightarrow> u64 \<Rightarrow> TaskContext" where
  "TaskContext_new_umode entry_point stack_top = \<lparr>
     ra = 0, t0 = 0, t1 = 0, t2 = 0, t3 = 0, t4 = 0, t5 = 0, t6 = 0, a0 = 0, a1 = 0, a2 = 0,
     a3 = 0, a4 = 0, a5 = 0, a6 = 0, a7 = 0, s0 = 0, s1 = 0, s2 = 0, s3 = 0, s4 = 0, s5 = 0,
     s6 = 0, s7 = 0, s8 = 0, s9 = 0, s10 = 0, s11 = 0, gp = 0, tp = 0, sp = stack_top,
     mepc = entry_point,
     mstatus = push_bit 7 1\<rparr>"

section \<open>Copying\<close>

text \<open>The frame part of a context.\<close>

definition frame_of :: "'a TrapFrame_scheme \<Rightarrow> TrapFrame" where
  "frame_of src = TrapFrame.truncate src"

lemma copy_gpr_frame [simp]: "frame_of (copy_gpr_fields src dst) = frame_of src"
  by (simp add: frame_of_def copy_gpr_fields_def TrapFrame.truncate_def)

lemma copy_gpr_more [simp]: "TrapFrame.more (copy_gpr_fields src dst) = TrapFrame.more dst"
  by (simp add: copy_gpr_fields_def)

lemma frame_eqI: "frame_of f = frame_of g \<Longrightarrow> TrapFrame.more f = TrapFrame.more g \<Longrightarrow> f = g"
  by (cases f, cases g) (simp add: frame_of_def TrapFrame.truncate_def)

lemma frame_of_id [simp]: "frame_of f = f" for f :: TrapFrame
  by (cases f) (simp add: frame_of_def TrapFrame.truncate_def)

lemma frame_of_csrs [simp]:
  "frame_of (c\<lparr>mepc := v\<rparr>) = frame_of c" "frame_of (c\<lparr>mstatus := w\<rparr>) = frame_of c"
  by (simp_all add: frame_of_def TrapFrame.truncate_def)

lemma copy_gpr_csrs [simp]:
  "mepc (copy_gpr_fields src dst) = mepc dst" "mstatus (copy_gpr_fields src dst) = mstatus dst"
  by (simp_all add: copy_gpr_fields_def)

lemma copy_to_frame: "copy_gpr_fields src dst = frame_of src" for dst :: TrapFrame
  by (metis copy_gpr_frame frame_of_id)

end
