(* ===== verification/Config.thy ===== *)
theory Config
  imports Prelude
begin

text \<open>
  The constants of \<open>crates/kernel/src/config.rs\<close>, and the two compile-time assertions it
  makes about the task stack.
\<close>

definition UART_BASE :: usize where "UART_BASE = 0x10000000"
definition CLINT_BASE :: usize where "CLINT_BASE = 0x02000000"
definition MTIME_OFFSET :: usize where "MTIME_OFFSET = 0xBFF8"
definition MTIMECMP_OFFSET :: usize where "MTIMECMP_OFFSET = 0x4000"
definition TIMER_FREQ_HZ :: u64 where "TIMER_FREQ_HZ = 10000000"
definition TICK_INTERVAL_US :: u64 where "TICK_INTERVAL_US = 10000"
definition MAX_TASKS :: nat where "MAX_TASKS = 4"
definition TASK_STACK_SIZE :: usize where "TASK_STACK_SIZE = 8192"
definition TASK_STACK_ALIGN :: usize where "TASK_STACK_ALIGN = 8192"
definition PMP_COUNT :: nat where "PMP_COUNT = 16"
definition SYS_GETC :: u64 where "SYS_GETC = 0"
definition SYS_PUTC :: u64 where "SYS_PUTC = 1"
definition SYS_LEGACY_POC :: u64 where "SYS_LEGACY_POC = 42"

text \<open>\<open>is_power_of_two\<close> of the Rust core library: exactly one bit is set.\<close>

definition is_power_of_two :: "u64 \<Rightarrow> bool" where
  "is_power_of_two w \<longleftrightarrow> w \<noteq> 0 \<and> w AND (w - 1) = 0"

definition stack_size_assertion :: bool where
  "stack_size_assertion \<longleftrightarrow> 8 \<le> TASK_STACK_SIZE \<and> is_power_of_two TASK_STACK_SIZE"

definition stack_align_assertion :: bool where
  "stack_align_assertion \<longleftrightarrow>
     is_power_of_two TASK_STACK_ALIGN \<and> TASK_STACK_SIZE \<le> TASK_STACK_ALIGN"

lemma stack_assertions: "stack_size_assertion" "stack_align_assertion"
  by (simp_all add: stack_size_assertion_def stack_align_assertion_def is_power_of_two_def
      TASK_STACK_SIZE_def TASK_STACK_ALIGN_def)

lemma is_power_of_two_iff: "is_power_of_two w \<longleftrightarrow> (\<exists>k<64. w = 2 ^ k)"
proof
  assume "is_power_of_two w"
  then have w: "w \<noteq> 0" and and0: "w AND (w - 1) = 0" by (auto simp: is_power_of_two_def)
  have "unat w AND (unat w - 1) = unat (w AND (w - 1))"
    using w by (simp add: unsigned_and_eq unat_minus_one)
  with and0 have "unat w AND (unat w - 1) = 0" by simp
  with w obtain k where k: "unat w = 2 ^ k"
    using nat_and_pred_0 [of "unat w"] by (auto simp: unat_gt_0)
  have "unat w < 2 ^ LENGTH(64)" by (rule unsigned_less)
  with k have "2 ^ k < (2 ^ 64 :: nat)" by simp
  then have "k < 64" by (simp only: power_strict_increasing_iff) 
  moreover from this k have "w = 2 ^ k" by (simp add: word_unat_eq_iff unat_pow2)
  ultimately show "\<exists>k<64. w = 2 ^ k" by blast
next
  assume "\<exists>k<64. w = 2 ^ k"
  then obtain k where k: "k < 64" "w = 2 ^ k" by blast
  have "unat (w AND (w - 1)) = 0"
    using k unat_and_low [of k w] by (simp add: unat_pow2)
  moreover have "unat w \<noteq> 0" using k by (simp add: unat_pow2)
  ultimately show "is_power_of_two w" by (auto simp: is_power_of_two_def unat_0_iff)
qed

end
