(* ===== verification/Hart.thy ===== *)
theory Hart
  imports Config
begin

text \<open>
  The hart and the CSR access layer (\<open>crates/kernel/src/arch/csr.rs\<close>).

  The state of the hart that kernel code can observe is a record: the machine CSRs the kernel
  names, the PMP registers, the CLINT registers, and the traffic with the UART. A device is
  not code of the repository, so its behaviour is left open: \<open>uart_in\<close> is the sequence of
  bytes that the device will answer to the volatile reads still to come, whatever they are, and
  \<open>mmio_trace\<close> records every volatile access in program order. A read with no answer left is
  a kernel that is still polling, \<open>Hang\<close>. The timer value \<open>mtime\<close> is likewise whatever the
  CLINT shows at that moment.

  A CSR is a 64-bit cell: \<open>csrr\<close> reads it, \<open>csrw\<close> stores it, \<open>csrs\<close> and \<open>csrc\<close> set
  and clear bits. The hart-defined legalisation of unsupported field values is not modelled
  (the kernel only writes supported ones); the lock bits of the PMP registers are, in theory
  \<open>Pmp_Unit\<close>, since the kernel's protection argument rests on them.
\<close>

datatype mmio_event =
    MmioRead8 u64 u8
  | MmioWrite8 u64 u8
  | MmioRead64 u64 u64
  | MmioWrite64 u64 u64
  | MmioWrite32 u64 u32

record hart =
  mstatus_csr :: u64
  mepc_csr :: u64
  mcause_csr :: u64
  mtval_csr :: u64
  mtvec_csr :: u64
  mie_csr :: u64
  mscratch_csr :: u64
  pmpcfg0_csr :: u64
  pmpcfg2_csr :: u64
  pmpaddr_csr :: "u64 list"
  mtime :: u64
  mtimecmp :: u64
  uart_in :: "u8 list"
  mmio_trace :: "mmio_event list"

section \<open>CSR access\<close>

definition MIE :: u64 where "MIE = push_bit 3 1"
definition MTIE :: u64 where "MTIE = push_bit 7 1"

text \<open>
  The four access macros, for any register: their argument is the register's field of the hart,
  its selector for a read and its update function for a write.
\<close>

definition csr_read :: "('a hart_scheme \<Rightarrow> u64) \<Rightarrow> ('a hart_scheme, u64) comp" where
  "csr_read csr = gets csr"

definition csr_write ::
    "((u64 \<Rightarrow> u64) \<Rightarrow> 'a hart_scheme \<Rightarrow> 'a hart_scheme) \<Rightarrow> u64 \<Rightarrow> ('a hart_scheme, unit) comp" where
  "csr_write csr val = modify (csr (\<lambda>_. val))"

definition csr_set_bits ::
    "((u64 \<Rightarrow> u64) \<Rightarrow> 'a hart_scheme \<Rightarrow> 'a hart_scheme) \<Rightarrow> u64 \<Rightarrow> ('a hart_scheme, unit) comp" where
  "csr_set_bits csr bits = modify (csr (\<lambda>v. v OR bits))"

definition csr_clear_bits ::
    "((u64 \<Rightarrow> u64) \<Rightarrow> 'a hart_scheme \<Rightarrow> 'a hart_scheme) \<Rightarrow> u64 \<Rightarrow> ('a hart_scheme, unit) comp" where
  "csr_clear_bits csr bits = modify (csr (\<lambda>v. v AND NOT bits))"

definition mstatus_read :: "('a hart_scheme, u64) comp" where
  "mstatus_read = csr_read mstatus_csr"

definition mstatus_write :: "u64 \<Rightarrow> ('a hart_scheme, unit) comp" where
  "mstatus_write val = csr_write mstatus_csr_update val"

definition mstatus_set_bits :: "u64 \<Rightarrow> ('a hart_scheme, unit) comp" where
  "mstatus_set_bits bits = csr_set_bits mstatus_csr_update bits"

definition mstatus_clear_bits :: "u64 \<Rightarrow> ('a hart_scheme, unit) comp" where
  "mstatus_clear_bits bits = csr_clear_bits mstatus_csr_update bits"

definition mpp_of :: "u64 \<Rightarrow> u64" where
  "mpp_of status = drop_bit 11 status AND 3"

definition mstatus_read_mpp :: "('a hart_scheme, u64) comp" where
  "mstatus_read_mpp = bind_comp mstatus_read (\<lambda>v. ret (mpp_of v))"

definition mcause_read :: "('a hart_scheme, u64) comp" where
  "mcause_read = csr_read mcause_csr"

definition mepc_read :: "('a hart_scheme, u64) comp" where
  "mepc_read = csr_read mepc_csr"

definition mepc_write :: "u64 \<Rightarrow> ('a hart_scheme, unit) comp" where
  "mepc_write val = csr_write mepc_csr_update val"

definition mtval_read :: "('a hart_scheme, u64) comp" where
  "mtval_read = csr_read mtval_csr"

definition mtvec_write :: "u64 \<Rightarrow> ('a hart_scheme, unit) comp" where
  "mtvec_write val = csr_write mtvec_csr_update val"

definition mie_enable_timer :: "('a hart_scheme, unit) comp" where
  "mie_enable_timer = csr_set_bits mie_csr_update MTIE"

definition mie_disable_timer :: "('a hart_scheme, unit) comp" where
  "mie_disable_timer = csr_clear_bits mie_csr_update MTIE"

lemmas csr_defs =
  csr_read_def csr_write_def csr_set_bits_def csr_clear_bits_def
  mstatus_read_def mstatus_write_def mstatus_set_bits_def mstatus_clear_bits_def
  mstatus_read_mpp_def mcause_read_def mepc_read_def mepc_write_def mtval_read_def
  mtvec_write_def mie_enable_timer_def mie_disable_timer_def

lemma csr_read_runs [run_simps]:
  "mstatus_read h = Return (mstatus_csr h) h"
  "mcause_read h = Return (mcause_csr h) h"
  "mepc_read h = Return (mepc_csr h) h"
  "mtval_read h = Return (mtval_csr h) h"
  "mstatus_read_mpp h = Return (mpp_of (mstatus_csr h)) h"
  by (simp_all add: csr_defs run_simps)

lemma csr_write_runs [run_simps]:
  "mstatus_write v h = Return () (h\<lparr>mstatus_csr := v\<rparr>)"
  "mstatus_set_bits v h = Return () (h\<lparr>mstatus_csr := mstatus_csr h OR v\<rparr>)"
  "mstatus_clear_bits v h = Return () (h\<lparr>mstatus_csr := mstatus_csr h AND NOT v\<rparr>)"
  "mepc_write v h = Return () (h\<lparr>mepc_csr := v\<rparr>)"
  "mtvec_write v h = Return () (h\<lparr>mtvec_csr := v\<rparr>)"
  "mie_enable_timer h = Return () (h\<lparr>mie_csr := mie_csr h OR MTIE\<rparr>)"
  "mie_disable_timer h = Return () (h\<lparr>mie_csr := mie_csr h AND NOT MTIE\<rparr>)"
  by (cases h; simp add: csr_defs run_simps)+

section \<open>Volatile accesses\<close>

definition read_volatile8 :: "u64 \<Rightarrow> ('a hart_scheme, u8) comp" where
  "read_volatile8 addr h = (case uart_in h of
      [] \<Rightarrow> Hang h
    | v # vs \<Rightarrow> Return v (h\<lparr>uart_in := vs, mmio_trace := mmio_trace h @ [MmioRead8 addr v]\<rparr>))"

definition write_volatile8 :: "u64 \<Rightarrow> u8 \<Rightarrow> ('a hart_scheme, unit) comp" where
  "write_volatile8 addr v =
     modify (\<lambda>h. h\<lparr>mmio_trace := mmio_trace h @ [MmioWrite8 addr v]\<rparr>)"

lemma write_volatile8_run [run_simps]:
  "write_volatile8 addr v h = Return () (h\<lparr>mmio_trace := mmio_trace h @ [MmioWrite8 addr v]\<rparr>)"
  by (simp add: write_volatile8_def run_simps)

section \<open>Computations that only talk to the console\<close>

text \<open>
  A computation that prints changes nothing of the hart but the UART traffic, and the traffic
  only grows.
\<close>

definition console_step :: "'a hart_scheme \<Rightarrow> 'a hart_scheme \<Rightarrow> bool" where
  "console_step h h' \<longleftrightarrow>
     (\<exists>vs tr. h' = h\<lparr>uart_in := vs, mmio_trace := mmio_trace h @ tr\<rparr>)"

definition console_only :: "('a hart_scheme, 'b) comp \<Rightarrow> bool" where
  "console_only m \<longleftrightarrow> (\<forall>h. console_step h (final_state (m h)))"

lemma console_step_refl: "console_step h h"
proof -
  have "h = h\<lparr>uart_in := uart_in h, mmio_trace := mmio_trace h @ []\<rparr>" by simp
  then show ?thesis unfolding console_step_def by blast
qed

lemma console_step_trans:
  assumes "console_step h h'" and "console_step h' h''"
  shows "console_step h h''"
proof -
  from assms obtain vs tr vs' tr'
    where 1: "h' = h\<lparr>uart_in := vs, mmio_trace := mmio_trace h @ tr\<rparr>"
      and 2: "h'' = h'\<lparr>uart_in := vs', mmio_trace := mmio_trace h' @ tr'\<rparr>"
    unfolding console_step_def by blast
  have "h'' = h\<lparr>uart_in := vs', mmio_trace := mmio_trace h @ (tr @ tr')\<rparr>"
    unfolding 2 1 by simp
  then show ?thesis unfolding console_step_def by blast
qed

lemma console_stepD:
  assumes "console_step h h'"
  shows "mstatus_csr h' = mstatus_csr h" "mepc_csr h' = mepc_csr h" "mcause_csr h' = mcause_csr h"
    "mtval_csr h' = mtval_csr h" "mtvec_csr h' = mtvec_csr h" "mie_csr h' = mie_csr h"
    "mscratch_csr h' = mscratch_csr h" "pmpcfg0_csr h' = pmpcfg0_csr h"
    "pmpcfg2_csr h' = pmpcfg2_csr h" "pmpaddr_csr h' = pmpaddr_csr h" "mtime h' = mtime h"
    "mtimecmp h' = mtimecmp h" "hart.more h' = hart.more h"
  using assms by (auto simp: console_step_def)

named_theorems console_intros \<open>computations that only touch the console\<close>

lemma console_ret [console_intros]: "console_only (ret a)"
  by (simp add: console_only_def ret_def console_step_refl)

lemma console_skip [console_intros]: "console_only skip"
  by (simp add: skip_def console_ret)

lemma console_panic [console_intros]: "console_only (panic_at f l m)"
  by (simp add: console_only_def panic_at_def console_step_refl)

lemma console_bind [console_intros]:
  assumes m: "console_only m" and f: "\<And>a. console_only (f a)"
  shows "console_only (bind_comp m f)"
  unfolding console_only_def
proof
  fix h
  show "console_step h (final_state (bind_comp m f h))"
  proof (cases "m h")
    case (Return a h')
    moreover have "console_step h (final_state (m h))" using m by (simp add: console_only_def)
    ultimately have "console_step h h'" by simp
    moreover have "console_step h' (final_state (f a h'))"
      using f by (simp add: console_only_def)
    ultimately show ?thesis using Return by (simp add: bind_comp_def console_step_trans)
  next
    case (Panic i h')
    moreover have "console_step h (final_state (m h))" using m by (simp add: console_only_def)
    ultimately show ?thesis by (simp add: bind_comp_def)
  next
    case (Hang h')
    moreover have "console_step h (final_state (m h))" using m by (simp add: console_only_def)
    ultimately show ?thesis by (simp add: bind_comp_def)
  qed
qed

lemma console_then [console_intros]:
  "console_only m \<Longrightarrow> console_only n \<Longrightarrow> console_only (then_comp m n)"
  unfolding then_comp_def by (intro console_bind)

lemma console_if [console_intros]:
  "console_only m \<Longrightarrow> console_only n \<Longrightarrow> console_only (if b then m else n)"
  by simp

lemma console_block [console_intros]: "list_all console_only ms \<Longrightarrow> console_only (block ms)"
  by (induction ms) (auto intro: console_intros)

lemma console_read8 [console_intros]: "console_only (read_volatile8 a)"
  unfolding console_only_def
proof
  fix h
  show "console_step h (final_state (read_volatile8 a h))"
    by (cases "uart_in h") (auto simp: read_volatile8_def console_step_refl console_step_def)
qed

lemma console_write8 [console_intros]: "console_only (write_volatile8 a v)"
  unfolding console_only_def
proof
  fix h
  have "h\<lparr>mmio_trace := mmio_trace h @ [MmioWrite8 a v]\<rparr> =
    h\<lparr>uart_in := uart_in h, mmio_trace := mmio_trace h @ [MmioWrite8 a v]\<rparr>" by simp
  then show "console_step h (final_state (write_volatile8 a v h))"
    unfolding write_volatile8_run console_step_def final_state.simps by blast
qed

section \<open>A hart out of reset\<close>

definition reset_hart :: "u8 list \<Rightarrow> hart" where
  "reset_hart vs = \<lparr>mstatus_csr = 0, mepc_csr = 0, mcause_csr = 0, mtval_csr = 0, mtvec_csr = 0,
     mie_csr = 0, mscratch_csr = 0, pmpcfg0_csr = 0, pmpcfg2_csr = 0, pmpaddr_csr = replicate 16 0,
     mtime = 0, mtimecmp = 0, uart_in = vs, mmio_trace = []\<rparr>"

end
