(* ===== verification/Pmp_Unit.thy ===== *)
theory Pmp_Unit
  imports Hart
begin

text \<open>
  The PMP registers as the instruction set defines them (RISC-V Privileged Specification v1.12,
  section 3.7, the document that \<open>crates/kernel/src/pmp.rs\<close> cites): what a \<open>csrw\<close> to
  \<open>pmpcfg0\<close>, \<open>pmpcfg2\<close> or \<open>pmpaddr0\<close>..\<open>pmpaddr15\<close> does in the presence of lock
  bits, and which accesses a configuration permits. This is the meaning of the instructions in
  the driver's \<open>asm!\<close> lines, not code of the repository, so nothing here has a source line.
\<close>

section \<open>Configuration bytes\<close>

definition locked :: "u8 \<Rightarrow> bool" where
  "locked cfg \<longleftrightarrow> bit cfg 7"

definition addr_mode :: "u8 \<Rightarrow> u8" where
  "addr_mode cfg = drop_bit 3 cfg AND 3"

definition entry_cfg :: "'a hart_scheme \<Rightarrow> nat \<Rightarrow> u8" where
  "entry_cfg h i = (if i < 8 then byte_of (pmpcfg0_csr h) i else byte_of (pmpcfg2_csr h) (i - 8))"

definition entry_addr :: "'a hart_scheme \<Rightarrow> nat \<Rightarrow> u64" where
  "entry_addr h i = pmpaddr_csr h ! i"

text \<open>
  A write to a configuration register leaves the bytes of locked entries alone; a write to an
  address register is ignored when its entry is locked, or when the next entry is a locked
  top-of-range entry, whose lower bound the register is.
\<close>

definition lock_mask :: "u64 \<Rightarrow> u64" where
  "lock_mask w = foldr (OR) (map (\<lambda>i. byte_at i (if locked (byte_of w i) then 0xFF else 0)) [0..<8]) 0"

definition merge_locked :: "u64 \<Rightarrow> u64 \<Rightarrow> u64" where
  "merge_locked old new = (old AND lock_mask old) OR (new AND NOT (lock_mask old))"

definition addr_locked :: "'a hart_scheme \<Rightarrow> nat \<Rightarrow> bool" where
  "addr_locked h i \<longleftrightarrow> locked (entry_cfg h i) \<or>
     (i + 1 < PMP_COUNT \<and> locked (entry_cfg h (i + 1)) \<and> addr_mode (entry_cfg h (i + 1)) = 1)"

definition csrw_pmpcfg0 :: "u64 \<Rightarrow> ('a hart_scheme, unit) comp" where
  "csrw_pmpcfg0 val = modify (\<lambda>h. h\<lparr>pmpcfg0_csr := merge_locked (pmpcfg0_csr h) val\<rparr>)"

definition csrw_pmpcfg2 :: "u64 \<Rightarrow> ('a hart_scheme, unit) comp" where
  "csrw_pmpcfg2 val = modify (\<lambda>h. h\<lparr>pmpcfg2_csr := merge_locked (pmpcfg2_csr h) val\<rparr>)"

definition csrw_pmpaddr :: "nat \<Rightarrow> u64 \<Rightarrow> ('a hart_scheme, unit) comp" where
  "csrw_pmpaddr i val = modify (\<lambda>h.
     if addr_locked h i then h else h\<lparr>pmpaddr_csr := (pmpaddr_csr h)[i := val]\<rparr>)"

lemma byte_lock_mask:
  assumes "j < 8"
  shows "byte_of (lock_mask w) j = (if locked (byte_of w j) then - 1 else 0)"
proof -
  have ones: "(0xFF :: u8) = - 1" by simp
  have "byte_of (foldr (OR) (map (\<lambda>i. byte_at i (f i)) is) 0) j = (if j \<in> set is then f j else 0)"
    if "\<forall>i\<in>set is. i < 8" for "is" and f :: "nat \<Rightarrow> u8"
    using that assms by (induction "is") (auto simp: byte_of_OR byte_of_byte_at)
  then show ?thesis unfolding lock_mask_def ones using assms by simp
qed

lemma byte_merge_locked:
  assumes "j < 8"
  shows "byte_of (merge_locked old new) j =
    (if locked (byte_of old j) then byte_of old j else byte_of new j)"
proof -
  have not_byte: "byte_of (NOT w) j = NOT (byte_of w j)" for w
    using assms by (intro bit_word_eqI) (auto simp: bit_byte_of bit_simps)
  show ?thesis
    using assms by (auto simp: merge_locked_def byte_of_OR byte_of_AND not_byte byte_lock_mask)
qed

section \<open>Access checks\<close>

datatype privilege = U_mode | M_mode

datatype access = AccRead | AccWrite | AccExec

definition permits :: "u8 \<Rightarrow> access \<Rightarrow> bool" where
  "permits cfg acc = (case acc of AccRead \<Rightarrow> bit cfg 0 | AccWrite \<Rightarrow> bit cfg 1 | AccExec \<Rightarrow> bit cfg 2)"

text \<open>
  Whether entry \<open>i\<close> matches a byte address. Address registers hold the address divided by
  four; in the naturally aligned power-of-two mode the trailing ones encode the size.
\<close>

definition napot_mask :: "u64 \<Rightarrow> u64" where
  "napot_mask pa = pa XOR (pa + 1)"

definition pmp_match :: "(nat \<Rightarrow> u8) \<Rightarrow> (nat \<Rightarrow> u64) \<Rightarrow> nat \<Rightarrow> u64 \<Rightarrow> bool" where
  "pmp_match cfg pa i a =
     (let mode = addr_mode (cfg i); w = drop_bit 2 a in
      if mode = 0 then False
      else if mode = 1 then (if i = 0 then 0 else pa (i - 1)) \<le> w \<and> w < pa i
      else if mode = 2 then w = pa i
      else w AND NOT (napot_mask (pa i)) = pa i AND NOT (napot_mask (pa i)))"

text \<open>
  The lowest-numbered entry that matches decides. Without a match M-mode may access anything
  and U-mode nothing; an unlocked entry does not constrain M-mode.
\<close>

definition pmp_allows ::
  "(nat \<Rightarrow> u8) \<Rightarrow> (nat \<Rightarrow> u64) \<Rightarrow> privilege \<Rightarrow> access \<Rightarrow> u64 \<Rightarrow> bool"
where
  "pmp_allows cfg pa priv acc a =
     (case find (\<lambda>i. pmp_match cfg pa i a) [0..<PMP_COUNT] of
        None \<Rightarrow> priv = M_mode
      | Some i \<Rightarrow> if priv = M_mode \<and> \<not> locked (cfg i) then True else permits (cfg i) acc)"

definition hart_allows :: "'a hart_scheme \<Rightarrow> privilege \<Rightarrow> access \<Rightarrow> u64 \<Rightarrow> bool" where
  "hart_allows h = pmp_allows (entry_cfg h) (entry_addr h)"

text \<open>
  The rules a protection argument may use, as a contract: the first matching entry decides,
  and the two defaults. The reference check above meets it.
\<close>

locale pmp_checker =
  fixes allows :: "(nat \<Rightarrow> u8) \<Rightarrow> (nat \<Rightarrow> u64) \<Rightarrow> privilege \<Rightarrow> access \<Rightarrow> u64 \<Rightarrow> bool"
  assumes first_match: "i < PMP_COUNT \<Longrightarrow> pmp_match cfg pa i a \<Longrightarrow>
      \<forall>j < i. \<not> pmp_match cfg pa j a \<Longrightarrow>
      allows cfg pa priv acc a \<longleftrightarrow> (priv = M_mode \<and> \<not> locked (cfg i)) \<or> permits (cfg i) acc"
    and no_match: "\<forall>i < PMP_COUNT. \<not> pmp_match cfg pa i a \<Longrightarrow>
      allows cfg pa priv acc a \<longleftrightarrow> priv = M_mode"
begin

text \<open>
  Entries after the deciding one do not matter: two configurations that agree up to it take the
  same decision.
\<close>

lemma shadowed:
  assumes "i < PMP_COUNT" "pmp_match cfg pa i a" "\<forall>j < i. \<not> pmp_match cfg pa j a"
    and "\<forall>j\<le>i. cfg' j = cfg j \<and> pa' j = pa j"
  shows "allows cfg' pa' priv acc a = allows cfg pa priv acc a"
proof -
  have same: "pmp_match cfg' pa' j a = pmp_match cfg pa j a" if "j \<le> i" for j
    using assms(4) that by (auto simp: pmp_match_def Let_def)
  have "pmp_match cfg' pa' i a" "\<forall>j < i. \<not> pmp_match cfg' pa' j a"
    using assms(2,3) same by auto
  from first_match [OF assms(1) this] first_match [OF assms(1-3)] assms(4) show ?thesis by simp
qed

lemma U_mode_needs_entry:
  assumes "allows cfg pa U_mode acc a"
  obtains i where "i < PMP_COUNT" "pmp_match cfg pa i a" "permits (cfg i) acc"
proof -
  from assms no_match have "\<exists>i. i < PMP_COUNT \<and> pmp_match cfg pa i a" by blast
  define i where "i = (LEAST i. i < PMP_COUNT \<and> pmp_match cfg pa i a)"
  from \<open>\<exists>i. _\<close> have i: "i < PMP_COUNT \<and> pmp_match cfg pa i a" unfolding i_def by (rule LeastI_ex)
  have "\<forall>j < i. \<not> pmp_match cfg pa j a"
    using i not_less_Least unfolding i_def by (metis (no_types, lifting) order.strict_trans)
  from first_match [OF _ _ this] i assms have "permits (cfg i) acc" by auto
  with i that show ?thesis by blast
qed

end

lemma find_upt_Some:
  "find P [0..<n] = Some i \<longleftrightarrow> i < n \<and> P i \<and> (\<forall>j < i. \<not> P j)"
  unfolding find_Some_iff by (auto intro!: exI [of _ i])

interpretation isa: pmp_checker pmp_allows
proof
  fix i cfg pa a priv acc
  assume "i < PMP_COUNT" "pmp_match cfg pa i a" "\<forall>j < i. \<not> pmp_match cfg pa j a"
  then have "find (\<lambda>i. pmp_match cfg pa i a) [0..<PMP_COUNT] = Some i"
    by (simp add: find_upt_Some)
  then show "pmp_allows cfg pa priv acc a \<longleftrightarrow>
      (priv = M_mode \<and> \<not> locked (cfg i)) \<or> permits (cfg i) acc"
    by (auto simp: pmp_allows_def)
next
  fix cfg pa a priv acc
  assume "\<forall>i < PMP_COUNT. \<not> pmp_match cfg pa i a"
  then have "find (\<lambda>i. pmp_match cfg pa i a) [0..<PMP_COUNT] = None"
    by (auto simp: find_None_iff)
  then show "pmp_allows cfg pa priv acc a \<longleftrightarrow> priv = M_mode"
    by (simp add: pmp_allows_def)
qed

section \<open>Naturally aligned power-of-two regions\<close>

text \<open>
  The address register for a region of \<open>2 ^ k\<close> bytes at an aligned base has exactly \<open>k - 3\<close>
  trailing ones, and the entry matches exactly the bytes of the region.
\<close>

definition napot_encode :: "u64 \<Rightarrow> u64 \<Rightarrow> u64" where
  "napot_encode base sz = drop_bit 2 (base + (sz div 2 - 1))"

lemma napot_encode_bits:
  assumes k: "3 \<le> k" "k < 64" and al: "take_bit k base = 0"
  shows "napot_encode base (2 ^ k) = drop_bit 2 base OR mask (k - 3)"
    and "napot_mask (napot_encode base (2 ^ k)) = mask (k - 2)"
proof -
  have low: "\<not> bit base n" if "n < k" for n
    using al that by (metis bit_0_eq bit_take_bit_iff bot_apply bot_bool_def)
  have "unat ((2 ^ k :: u64) div 2) = unat (2 ^ (k - 1) :: u64)"
    using k by (simp add: unat_div unat_pow2 power_diff)
  then have half: "(2 ^ k :: u64) div 2 = 2 ^ (k - 1)" by (simp add: word_unat_eq_iff)
  have "base AND mask (k - 1) = 0" using low by (auto simp: bit_eq_iff bit_simps)
  then have sum: "base + mask (k - 1) = base OR mask (k - 1)" by (rule disjunctive_add_eq_or)
  show enc: "napot_encode base (2 ^ k) = drop_bit 2 base OR mask (k - 3)"
    unfolding napot_encode_def half pow2_minus_1_mask sum
    by (rule bit_word_eqI) (use k in \<open>auto simp: bit_simps\<close>)
  have "drop_bit 2 base AND mask (k - 3) = 0" using low k by (auto simp: bit_eq_iff bit_simps)
  then have "drop_bit 2 base OR mask (k - 3) = drop_bit 2 base + mask (k - 3)"
    by (rule disjunctive_add_eq_or [symmetric])
  then have "(drop_bit 2 base OR mask (k - 3)) + 1 = drop_bit 2 base + 2 ^ (k - 3)"
    by (simp add: mask_eq_decr_exp)
  also have "\<dots> = drop_bit 2 base OR 2 ^ (k - 3)"
  proof (rule disjunctive_add_eq_or)
    show "drop_bit 2 base AND 2 ^ (k - 3) = 0"
      by (rule bit_word_eqI) (use low k in \<open>auto simp: bit_simps\<close>)
  qed
  finally show "napot_mask (napot_encode base (2 ^ k)) = mask (k - 2)"
    unfolding napot_mask_def enc
    by (intro bit_word_eqI) (use k low in \<open>auto simp: bit_simps\<close>)
qed

lemma drop_bit_eq_iff_range:
  fixes a base :: u64
  assumes "k < 64" "take_bit k base = 0"
  shows "drop_bit k a = drop_bit k base \<longleftrightarrow> unat base \<le> unat a \<and> unat a < unat base + 2 ^ k"
proof -
  have dvd: "2 ^ k dvd unat base"
  proof -
    have "unat (take_bit k base) = unat base mod 2 ^ k"
      using assms(1) by (simp add: take_bit_eq_mod unat_mod_distrib unat_pow2)
    with assms(2) show ?thesis by (simp add: mod_eq_0_iff_dvd)
  qed
  have "drop_bit k a = drop_bit k base \<longleftrightarrow> unat a div 2 ^ k = unat base div 2 ^ k"
    unfolding word_unat_eq_iff unat_drop_bit_eq by (simp add: drop_bit_eq_div)
  also have "\<dots> \<longleftrightarrow> unat base \<le> unat a \<and> unat a < unat base + 2 ^ k"
  proof -
    from dvd obtain q where q: "unat base = 2 ^ k * q" by blast
    have "unat a div 2 ^ k = q \<longleftrightarrow> 2 ^ k * q \<le> unat a \<and> unat a < 2 ^ k * q + 2 ^ k"
    proof
      assume "unat a div 2 ^ k = q"
      then show "2 ^ k * q \<le> unat a \<and> unat a < 2 ^ k * q + 2 ^ k"
        using dividend_less_times_div [of "2 ^ k" "unat a"]
          times_div_less_eq_dividend [of "2 ^ k" "unat a"] by auto
    next
      assume "2 ^ k * q \<le> unat a \<and> unat a < 2 ^ k * q + 2 ^ k"
      then show "unat a div 2 ^ k = q" by (intro div_nat_eqI) auto
    qed
    then show ?thesis using q by simp
  qed
  finally show ?thesis .
qed

lemma pmp_match_napot:
  assumes k: "3 \<le> k" "k < 64" and al: "take_bit k base = 0"
    and cfg: "addr_mode (cfg i) = 3" and pa: "pa i = napot_encode base (2 ^ k)"
  shows "pmp_match cfg pa i a \<longleftrightarrow> unat base \<le> unat a \<and> unat a < unat base + 2 ^ k"
proof -
  let ?m = "mask (k - 2) :: u64"
  have "pmp_match cfg pa i a \<longleftrightarrow> drop_bit 2 a AND NOT ?m = pa i AND NOT ?m"
    using cfg pa napot_encode_bits(2) [OF k al] by (simp add: pmp_match_def Let_def)
  also have "\<dots> \<longleftrightarrow> drop_bit k a = drop_bit k base"
  proof
    assume eq: "drop_bit 2 a AND NOT ?m = pa i AND NOT ?m"
    show "drop_bit k a = drop_bit k base"
    proof (rule bit_word_eqI)
      fix n assume "n < LENGTH(64)"
      have idx: "2 + (k - 2 + n) = k + n" using k by simp
      have "bit (drop_bit 2 a AND NOT ?m) (k - 2 + n) = bit (pa i AND NOT ?m) (k - 2 + n)"
        using eq by simp
      then have "k - 2 + n < 64 \<Longrightarrow> bit a (k + n) = bit base (k + n)"
        unfolding pa napot_encode_bits(1) [OF k al] using idx k by (auto simp: bit_simps)
      then show "bit (drop_bit k a) n = bit (drop_bit k base) n"
        using k bit_imp_le_length [of a "k + n"] bit_imp_le_length [of base "k + n"]
        by (auto simp: bit_simps)
    qed
  next
    assume eq: "drop_bit k a = drop_bit k base"
    show "drop_bit 2 a AND NOT ?m = pa i AND NOT ?m"
    proof (rule bit_word_eqI)
      fix n assume "n < LENGTH(64)"
      have "bit (drop_bit k a) (n - (k - 2)) = bit (drop_bit k base) (n - (k - 2))" using eq by simp
      then have "k - 2 \<le> n \<Longrightarrow> bit a (2 + n) = bit base (2 + n)"
        using k by (auto simp: bit_simps)
      then show "bit (drop_bit 2 a AND NOT ?m) n = bit (pa i AND NOT ?m) n"
        unfolding pa napot_encode_bits(1) [OF k al] using k by (auto simp: bit_simps)
    qed
  qed
  also have "\<dots> \<longleftrightarrow> unat base \<le> unat a \<and> unat a < unat base + 2 ^ k"
    by (rule drop_bit_eq_iff_range [OF k(2) al])
  finally show ?thesis .
qed

lemma pmp_match_tor:
  assumes "addr_mode (cfg i) = 1" "i \<noteq> 0" "pa (i - 1) = drop_bit 2 lo" "pa i = drop_bit 2 hi"
    and "4 dvd unat lo" "4 dvd unat hi"
  shows "pmp_match cfg pa i a \<longleftrightarrow> lo \<le> a \<and> a < hi"
proof -
  have d: "unat (drop_bit 2 w) = unat w div 4" for w :: u64
    unfolding unat_drop_bit_eq by (simp add: drop_bit_eq_div)
  from assms(5,6) obtain p q where pq: "unat lo = 4 * p" "unat hi = 4 * q" by (auto elim!: dvdE)
  have "drop_bit 2 lo \<le> drop_bit 2 a \<longleftrightarrow> lo \<le> a" "drop_bit 2 a < drop_bit 2 hi \<longleftrightarrow> a < hi"
    unfolding word_le_nat_alt word_less_nat_alt d pq by auto
  then show ?thesis using assms by (simp add: pmp_match_def Let_def)
qed

end
