(* ===== verification/Uart16550.thy ===== *)
theory Uart16550
  imports Hart
begin

text \<open>
  The NS16550A driver, \<open>crates/kernel/src/serial/uart16550.rs\<close>: register offsets,
  \<open>init\<close>, the polled \<open>putc\<close>, \<open>getc\<close> and \<open>try_getc\<close>, and the formatting loops \<open>puts\<close>,
  \<open>put_dec\<close> and \<open>put_hex\<close>.

  The busy-wait loops end as soon as the device answers with the awaited bit. A finite
  \<open>uart_in\<close> bounds them, and \<open>emits\<close> states exactly how many ready answers are enough.
\<close>

definition THR :: u64 where "THR = 0x00"
definition RBR :: u64 where "RBR = 0x00"
definition IER :: u64 where "IER = 0x01"
definition FCR :: u64 where "FCR = 0x02"
definition LCR :: u64 where "LCR = 0x03"
definition LSR :: u64 where "LSR = 0x05"
definition LSR_TX_EMPTY :: u8 where "LSR_TX_EMPTY = push_bit 5 1"
definition LSR_RX_READY :: u8 where "LSR_RX_READY = push_bit 0 1"
definition LCR_8BIT :: u8 where "LCR_8BIT = 3"
definition LCR_DLAB :: u8 where "LCR_DLAB = push_bit 7 1"

definition uart_init :: "('a hart_scheme, unit) comp" where
  "uart_init = block [
     write_volatile8 (UART_BASE + IER) 0x00,
     write_volatile8 (UART_BASE + LCR) LCR_DLAB,
     write_volatile8 (UART_BASE + 0) 0x01,
     write_volatile8 (UART_BASE + 1) 0x00,
     write_volatile8 (UART_BASE + LCR) LCR_8BIT,
     write_volatile8 (UART_BASE + FCR) 0x07]"

text \<open>\<open>while (read_volatile(base.add(LSR)) & mask) == 0 {}\<close>\<close>

function spin_lsr :: "u8 \<Rightarrow> ('a hart_scheme, unit) comp" where
  "spin_lsr flag h = (case read_volatile8 (UART_BASE + LSR) h of
      Return v h' \<Rightarrow> if v AND flag = 0 then spin_lsr flag h' else Return () h'
    | Panic i h' \<Rightarrow> Panic i h'
    | Hang h' \<Rightarrow> Hang h')"
  by pat_completeness auto
termination
  by (relation "measure (\<lambda>(flag, h). length (uart_in h))")
    (auto simp: read_volatile8_def split: list.splits)

declare spin_lsr.simps [simp del]

definition putc :: "u8 \<Rightarrow> ('a hart_scheme, unit) comp" where
  "putc c = then_comp (spin_lsr LSR_TX_EMPTY) (write_volatile8 (UART_BASE + THR) c)"

definition puts_byte :: "u8 \<Rightarrow> ('a hart_scheme, unit) comp" where
  "puts_byte c = (if c = 10 then then_comp (putc 13) (putc c) else putc c)"

definition puts :: "string \<Rightarrow> ('a hart_scheme, unit) comp" where
  "puts s = block (map (\<lambda>c. puts_byte (of_char c)) s)"

text \<open>
  The digit buffer of \<open>put_dec\<close> has 20 bytes and that of \<open>put_hex\<close> has 16; an index past
  the end panics. \<open>fill_dec\<close> and \<open>fill_hex\<close> are the first loops (buffer and index),
  \<open>drain\<close> is the second.
\<close>

function fill_dec :: "u64 \<Rightarrow> u8 list \<Rightarrow> nat \<Rightarrow> ('a hart_scheme, u8 list \<times> nat) comp" where
  "fill_dec n buf idx =
     (if n > 0 then
        if idx < length buf
        then fill_dec (n div 10) (buf[idx := 0x30 + ucast (n mod 10)]) (idx + 1)
        else panic_at ''crates/kernel/src/serial/uart16550.rs'' 95 ''index out of bounds''
      else ret (buf, idx))"
  by pat_completeness auto
termination
  by (relation "measure (\<lambda>(n, buf, idx). unat n)")
    (auto simp: unat_div word_less_nat_alt)

declare fill_dec.simps [simp del]

function fill_hex :: "u64 \<Rightarrow> u8 list \<Rightarrow> nat \<Rightarrow> ('a hart_scheme, u8 list \<times> nat) comp" where
  "fill_hex n buf i =
     (if n > 0 then
        let d = ucast (n AND 0xF) :: u8 in
        if i < length buf
        then fill_hex (drop_bit 4 n) (buf[i := if d < 10 then 0x30 + d else 0x61 + d - 10]) (i + 1)
        else panic_at ''crates/kernel/src/serial/uart16550.rs'' 117 ''index out of bounds''
      else ret (buf, i))"
  by pat_completeness auto
termination
  by (relation "measure (\<lambda>(n, buf, i). unat n)")
    (auto simp: drop_bit_eq_div unat_div word_less_nat_alt)

declare fill_hex.simps [simp del]

primrec drain :: "nat \<Rightarrow> u8 list \<Rightarrow> nat \<Rightarrow> ('a hart_scheme, unit) comp" where
  "drain line buf 0 = skip"
| "drain line buf (Suc idx) =
     (if idx < length buf then then_comp (putc (buf ! idx)) (drain line buf idx)
      else panic_at ''crates/kernel/src/serial/uart16550.rs'' line ''index out of bounds'')"

definition put_dec :: "u64 \<Rightarrow> ('a hart_scheme, unit) comp" where
  "put_dec n =
     (if n = 0 then putc 0x30
      else bind_comp (fill_dec n (replicate 20 0) 0) (\<lambda>(buf, idx). drain 101 buf idx))"

definition put_hex :: "u64 \<Rightarrow> ('a hart_scheme, unit) comp" where
  "put_hex n = then_comp (puts ''0x'')
     (if n = 0 then putc 0x30
      else bind_comp (fill_hex n (replicate 16 0) 0) (\<lambda>(buf, i). drain 123 buf i))"

definition getc :: "('a hart_scheme, u8) comp" where
  "getc = then_comp (spin_lsr LSR_RX_READY) (read_volatile8 (UART_BASE + RBR))"

definition try_getc :: "('a hart_scheme, u8 option) comp" where
  "try_getc = bind_comp (read_volatile8 (UART_BASE + LSR)) (\<lambda>v.
     if v AND LSR_RX_READY \<noteq> 0
     then bind_comp (read_volatile8 (UART_BASE + RBR)) (\<lambda>b. ret (Some b))
     else ret None)"


section \<open>Polling\<close>

abbreviation reads_lsr :: "u8 list \<Rightarrow> mmio_event list" where
  "reads_lsr vs \<equiv> map (MmioRead8 (UART_BASE + LSR)) vs"

lemma spin_lsr_eq:
  "spin_lsr flag h =
     (case dropWhile (\<lambda>v. v AND flag = 0) (uart_in h) of
        [] \<Rightarrow> Hang (h\<lparr>uart_in := [], mmio_trace := mmio_trace h @ reads_lsr (uart_in h)\<rparr>)
      | v # vs \<Rightarrow> Return () (h\<lparr>uart_in := vs, mmio_trace := mmio_trace h @
          reads_lsr (takeWhile (\<lambda>v. v AND flag = 0) (uart_in h)) @ reads_lsr [v]\<rparr>))"
proof (induction "uart_in h" arbitrary: h)
  case Nil
  then show ?case by (simp add: spin_lsr.simps [of flag h] read_volatile8_def)
next
  case (Cons v vs)
  define h' where "h' = h\<lparr>uart_in := vs,
    mmio_trace := mmio_trace h @ [MmioRead8 (UART_BASE + LSR) v]\<rparr>"
  have read: "read_volatile8 (UART_BASE + LSR) h = Return v h'"
    using Cons.hyps(2) [symmetric] by (simp add: read_volatile8_def h'_def)
  show ?case
  proof (cases "v AND flag = 0")
    case False
    then show ?thesis
      using read Cons.hyps(2) [symmetric] by (simp add: spin_lsr.simps [of flag h] h'_def)
  next
    case True
    have "spin_lsr flag h = spin_lsr flag h'"
      using True read by (simp add: spin_lsr.simps [of flag h])
    then show ?thesis
      using True Cons.hyps(1) [of h'] Cons.hyps(2) [symmetric]
      by (simp add: h'_def del: dropWhile_eq_Nil_conv split: list.splits)
  qed
qed

lemma console_spin [console_intros]: "console_only (spin_lsr flag)"
  unfolding console_only_def console_step_def
  by (auto simp: spin_lsr_eq split: list.splits intro!: exI)

lemma console_putc [console_intros]: "console_only (putc c)"
  unfolding putc_def by (intro console_intros)

lemma console_puts [console_intros]: "console_only (puts s)"
  unfolding puts_def
  by (rule console_block) (auto simp: list_all_iff puts_byte_def intro: console_intros)

section \<open>What a transmission emits\<close>

definition tx_ready :: "u8 list \<Rightarrow> nat" where
  "tx_ready vs = length (filter (\<lambda>v. v AND LSR_TX_EMPTY \<noteq> 0) vs)"

definition tx_budget :: "'a hart_scheme \<Rightarrow> nat" where
  "tx_budget h = tx_ready (uart_in h)"

primrec thr_bytes :: "mmio_event list \<Rightarrow> u8 list" where
  "thr_bytes [] = []"
| "thr_bytes (e # es) = (case e of
      MmioWrite8 a b \<Rightarrow> if a = UART_BASE + THR then b # thr_bytes es else thr_bytes es
    | _ \<Rightarrow> thr_bytes es)"

text \<open>
  Every byte is written to the holding register right after a status read that showed it
  empty, so no byte can overrun another.
\<close>

primrec paced_from :: "bool \<Rightarrow> mmio_event list \<Rightarrow> bool" where
  "paced_from ready [] = True"
| "paced_from ready (e # es) = (case e of
      MmioRead8 a v \<Rightarrow> paced_from (a = UART_BASE + LSR \<and> v AND LSR_TX_EMPTY \<noteq> 0) es
    | MmioWrite8 a b \<Rightarrow> (a = UART_BASE + THR \<longrightarrow> ready) \<and> paced_from False es
    | _ \<Rightarrow> paced_from False es)"

abbreviation paced :: "mmio_event list \<Rightarrow> bool" where
  "paced \<equiv> paced_from False"

lemma thr_bytes_append [simp]: "thr_bytes (xs @ ys) = thr_bytes xs @ thr_bytes ys"
  by (induction xs) (auto split: mmio_event.splits)

lemma thr_bytes_reads [simp]: "thr_bytes (reads_lsr vs) = []"
  by (induction vs) auto

lemma paced_mono: "paced_from False es \<Longrightarrow> paced_from r es"
  by (cases es) (auto split: mmio_event.splits)

lemma paced_append: "paced_from r xs \<Longrightarrow> paced ys \<Longrightarrow> paced_from r (xs @ ys)"
  by (induction xs arbitrary: r) (auto simp: paced_mono split: mmio_event.splits)

lemma paced_reads: "paced_from r (reads_lsr vs)"
  by (induction vs arbitrary: r) auto

lemma tx_ready_simps [simp]:
  "tx_ready [] = 0"
  "tx_ready (v # vs) = (if v AND LSR_TX_EMPTY = 0 then tx_ready vs else Suc (tx_ready vs))"
  by (simp_all add: tx_ready_def)

text \<open>
  \<open>emits m bs\<close>: when the device reports an empty transmitter at least once per byte of \<open>bs\<close>,
  \<open>m\<close> returns after sending exactly \<open>bs\<close>, properly paced and touching nothing else; when
  it does not, \<open>m\<close> is left polling.
\<close>

definition emits :: "('a hart_scheme, unit) comp \<Rightarrow> u8 list \<Rightarrow> bool" where
  "emits m bs \<longleftrightarrow> (\<forall>h.
     if length bs \<le> tx_budget h
     then \<exists>vs tr. m h = Return () (h\<lparr>uart_in := vs, mmio_trace := mmio_trace h @ tr\<rparr>) \<and>
            thr_bytes tr = bs \<and> paced tr \<and> tx_ready vs = tx_budget h - length bs
     else \<exists>h'. m h = Hang h' \<and> console_step h h')"

lemma emitsD:
  assumes "emits m bs" and "length bs \<le> tx_budget h"
  obtains vs tr where "m h = Return () (h\<lparr>uart_in := vs, mmio_trace := mmio_trace h @ tr\<rparr>)"
    "thr_bytes tr = bs" "paced tr" "tx_ready vs = tx_budget h - length bs"
  using assms unfolding emits_def by metis

lemma emits_HangD:
  assumes "emits m bs" and "\<not> length bs \<le> tx_budget h"
  obtains h' where "m h = Hang h'" "console_step h h'"
  using assms unfolding emits_def by metis

named_theorems emits_intros \<open>what the printing routines emit\<close>

lemma emits_skip [emits_intros]: "emits skip []"
  unfolding emits_def
proof
  fix h :: "'a hart_scheme"
  have "skip h = Return () (h\<lparr>uart_in := uart_in h, mmio_trace := mmio_trace h @ []\<rparr>)"
    by (simp add: skip_run)
  moreover have "thr_bytes [] = []" "paced []" "tx_ready (uart_in h) = tx_budget h - length ([] :: u8 list)"
    by (simp_all add: tx_budget_def)
  ultimately show "if length ([] :: u8 list) \<le> tx_budget h
     then \<exists>vs tr. skip h = Return () (h\<lparr>uart_in := vs, mmio_trace := mmio_trace h @ tr\<rparr>) \<and>
            thr_bytes tr = [] \<and> paced tr \<and> tx_ready vs = tx_budget h - length ([] :: u8 list)
     else \<exists>h'. skip h = Hang h' \<and> console_step h h'" by (metis le0 list.size(3))
qed

lemma emits_then [emits_intros]:
  assumes m: "emits m bs" and n: "emits n cs"
  shows "emits (then_comp m n) (bs @ cs)"
  unfolding emits_def
proof (intro allI)
  fix h
  show "if length (bs @ cs) \<le> tx_budget h
     then \<exists>vs tr. then_comp m n h =
        Return () (h\<lparr>uart_in := vs, mmio_trace := mmio_trace h @ tr\<rparr>) \<and>
        thr_bytes tr = bs @ cs \<and> paced tr \<and> tx_ready vs = tx_budget h - length (bs @ cs)
     else \<exists>h'. then_comp m n h = Hang h' \<and> console_step h h'"
  proof (cases "length bs \<le> tx_budget h")
    case False
    then obtain h' where "m h = Hang h'" "console_step h h'" using emits_HangD [OF m] by blast
    with False show ?thesis by (simp add: then_comp_def bind_comp_def)
  next
    case True
    then obtain vs tr where
      mh: "m h = Return () (h\<lparr>uart_in := vs, mmio_trace := mmio_trace h @ tr\<rparr>)"
      and tr: "thr_bytes tr = bs" "paced tr" "tx_ready vs = tx_budget h - length bs"
      using emitsD [OF m] by metis
    define h1 where "h1 = h\<lparr>uart_in := vs, mmio_trace := mmio_trace h @ tr\<rparr>"
    have h1: "tx_budget h1 = tx_budget h - length bs" "then_comp m n h = n h1"
      using tr(3) mh by (simp_all add: h1_def tx_budget_def then_comp_def bind_comp_def)
    have step: "console_step h h1" unfolding console_step_def h1_def by blast
    show ?thesis
    proof (cases "length cs \<le> tx_budget h1")
      case False
      then obtain h' where "n h1 = Hang h'" "console_step h1 h'"
        using emits_HangD [OF n] by blast
      with False h1 step show ?thesis by (auto intro: console_step_trans)
    next
      case True': True
      then obtain vs' tr' where
        "n h1 = Return () (h1\<lparr>uart_in := vs', mmio_trace := mmio_trace h1 @ tr'\<rparr>)"
        and "thr_bytes tr' = cs" "paced tr'" "tx_ready vs' = tx_budget h1 - length cs"
        using emitsD [OF n] by metis
      with True True' tr h1 show ?thesis
        by (auto simp: h1_def paced_append intro!: exI [of _ vs'] exI [of _ "tr @ tr'"])
    qed
  qed
qed

lemma emits_block [emits_intros]:
  "list_all2 emits ms bss \<Longrightarrow> emits (block ms) (concat bss)"
  by (induction rule: list_all2_induct) (auto intro: emits_intros)

lemma tx_ready_dropWhile:
  "tx_ready (dropWhile (\<lambda>v. v AND LSR_TX_EMPTY = 0) vs) = tx_ready vs"
  by (induction vs) auto

lemma dropWhile_ready: "dropWhile P xs = y # ys \<Longrightarrow> \<not> P y"
  by (metis hd_dropWhile list.distinct(1) list.sel(1))

lemma emits_putc [emits_intros]: "emits (putc c) [c]"
  unfolding emits_def
proof
  fix h :: "'a hart_scheme"
  let ?P = "\<lambda>v. v AND LSR_TX_EMPTY = 0"
  have budget: "tx_budget h = tx_ready (dropWhile ?P (uart_in h))"
    by (simp add: tx_budget_def tx_ready_dropWhile)
  show "if length [c] \<le> tx_budget h
     then \<exists>vs tr. putc c h = Return () (h\<lparr>uart_in := vs, mmio_trace := mmio_trace h @ tr\<rparr>) \<and>
            thr_bytes tr = [c] \<and> paced tr \<and> tx_ready vs = tx_budget h - length [c]
     else \<exists>h'. putc c h = Hang h' \<and> console_step h h'"
  proof (cases "dropWhile ?P (uart_in h)")
    case Nil
    then have "putc c h = Hang (h\<lparr>uart_in := [], mmio_trace := mmio_trace h @ reads_lsr (uart_in h)\<rparr>)"
      by (simp add: putc_def spin_lsr_eq then_comp_def bind_comp_def del: dropWhile_eq_Nil_conv)
    moreover have "\<not> length [c] \<le> tx_budget h" using budget Nil by simp
    ultimately show ?thesis by (auto simp: console_step_def)
  next
    case (Cons v vs)
    let ?tr = "reads_lsr (takeWhile ?P (uart_in h)) @ reads_lsr [v] @ [MmioWrite8 (UART_BASE + THR) c]"
    have ready: "v AND LSR_TX_EMPTY \<noteq> 0" using dropWhile_ready [OF Cons] .
    have "putc c h = Return () (h\<lparr>uart_in := vs, mmio_trace := mmio_trace h @ ?tr\<rparr>)"
      using Cons by (simp add: putc_def spin_lsr_eq then_comp_def bind_comp_def write_volatile8_run)
    moreover have "paced ?tr"
    proof -
      have "paced (reads_lsr [v] @ [MmioWrite8 (UART_BASE + THR) c])" using ready by simp
      then show ?thesis by (rule paced_append [OF paced_reads])
    qed
    moreover have "thr_bytes ?tr = [c]" by simp
    moreover have "tx_budget h = Suc (tx_ready vs)" using budget Cons ready by simp
    ultimately show ?thesis by (metis One_nat_def Suc_le_mono diff_Suc_1 le0 length_Cons list.size(3))
  qed
qed

primrec crlf :: "u8 list \<Rightarrow> u8 list" where
  "crlf [] = []"
| "crlf (c # cs) = (if c = 10 then [13, c] else [c]) @ crlf cs"

abbreviation bytes :: "string \<Rightarrow> u8 list" where
  "bytes s \<equiv> map of_char s"

lemma crlf_append: "crlf (xs @ ys) = crlf xs @ crlf ys"
  by (induction xs) auto

lemma crlf_plain: "10 \<notin> set bs \<Longrightarrow> crlf bs = bs"
  by (induction bs) auto

lemma emits_puts_byte [emits_intros]: "emits (puts_byte c) (if c = 10 then [13, c] else [c])"
  using emits_then [OF emits_putc emits_putc, of 13 c] emits_putc
  by (auto simp: puts_byte_def)

lemma emits_puts [emits_intros]: "emits (puts s) (crlf (bytes s))"
proof (induction s)
  case Nil
  then show ?case by (simp add: puts_def emits_skip)
next
  case (Cons c s)
  then show ?case
    using emits_then [OF emits_puts_byte Cons.IH [unfolded puts_def], of "of_char c"]
    by (simp add: puts_def)
qed


section \<open>Numbers in decimal and hexadecimal\<close>

text \<open>The digits of a number in a base, most significant first.\<close>

function digits_in :: "nat \<Rightarrow> (nat \<Rightarrow> u8) \<Rightarrow> nat \<Rightarrow> u8 list" where
  "digits_in b f n =
     (if b \<le> 1 \<or> n < b then [f n] else digits_in b f (n div b) @ [f (n mod b)])"
  by pat_completeness auto
termination
  by (relation "measure (\<lambda>(b, f, n). n)") auto

declare digits_in.simps [simp del]

definition dec_digit :: "nat \<Rightarrow> u8" where
  "dec_digit d = 0x30 + of_nat d"

definition hex_digit :: "nat \<Rightarrow> u8" where
  "hex_digit d = (if d < 10 then 0x30 + of_nat d else 0x61 + of_nat d - 10)"

abbreviation dec_bytes :: "nat \<Rightarrow> u8 list" where "dec_bytes \<equiv> digits_in 10 dec_digit"
abbreviation hex_bytes :: "nat \<Rightarrow> u8 list" where "hex_bytes \<equiv> digits_in 16 hex_digit"

lemma digits_small: "n < b \<Longrightarrow> digits_in b f n = [f n]"
  by (simp add: digits_in.simps)

lemma digits_large: "1 < b \<Longrightarrow> b \<le> n \<Longrightarrow> digits_in b f n = digits_in b f (n div b) @ [f (n mod b)]"
  by (subst digits_in.simps) simp

lemma digits_length: "1 < b \<Longrightarrow> n < b ^ k \<Longrightarrow> 0 < k \<Longrightarrow> length (digits_in b f n) \<le> k"
proof (induction k arbitrary: n)
  case 0
  then show ?case by simp
next
  case (Suc k)
  show ?case
  proof (cases "n < b")
    case True
    then show ?thesis by (simp add: digits_small)
  next
    case False
    with Suc.prems have k: "0 < k" by (cases k) auto
    have "n div b < b ^ k" using Suc.prems by (simp add: less_mult_imp_div_less mult.commute)
    then have "length (digits_in b f (n div b)) \<le> k" using Suc.IH Suc.prems(1) k by blast
    with False Suc.prems(1) show ?thesis by (simp add: digits_large)
  qed
qed

text \<open>Reading the digits back.\<close>

definition read_digits :: "nat \<Rightarrow> (u8 \<Rightarrow> nat) \<Rightarrow> u8 list \<Rightarrow> nat" where
  "read_digits b val = foldl (\<lambda>n c. n * b + val c) 0"

lemma read_digits_in:
  assumes "1 < b" and "\<And>d. d < b \<Longrightarrow> val (f d) = d"
  shows "read_digits b val (digits_in b f n) = n"
proof (induction n rule: less_induct)
  case (less n)
  show ?case
  proof (cases "n < b")
    case True
    with assms(2) show ?thesis by (simp add: digits_small read_digits_def)
  next
    case False
    with assms(1) have "n div b < n" by simp
    then have "read_digits b val (digits_in b f (n div b)) = n div b" by (rule less.IH)
    with False assms show ?thesis by (simp add: digits_large read_digits_def)
  qed
qed

text \<open>
  The two digit loops meet one contract: at zero they stop, otherwise they store one digit and
  go on with the quotient. The client lemma is that the buffer then holds the digits of the
  number, least significant first.
\<close>

locale digit_filler =
  fixes fill :: "u64 \<Rightarrow> u8 list \<Rightarrow> nat \<Rightarrow> ('s, u8 list \<times> nat) comp"
    and base :: u64
    and digit :: "nat \<Rightarrow> u8"
  assumes base_gt_1: "1 < unat base"
    and fill_zero: "fill 0 buf i s = Return (buf, i) s"
    and fill_step: "0 < n \<Longrightarrow> i < length buf \<Longrightarrow>
      fill n buf i s = fill (n div base) (buf[i := digit (unat n mod unat base)]) (i + 1) s"
begin

abbreviation ds :: "u64 \<Rightarrow> u8 list" where
  "ds n \<equiv> digits_in (unat base) digit (unat n)"

lemma fill_digits:
  assumes "0 < n" and "i + length (ds n) \<le> length buf"
  shows "\<exists>buf'. fill n buf i s = Return (buf', i + length (ds n)) s \<and>
    length buf' = length buf \<and> take (i + length (ds n)) buf' = take i buf @ rev (ds n)"
  using assms
proof (induction "unat n" arbitrary: n buf i rule: less_induct)
  case less
  let ?d = "digit (unat n mod unat base)" and ?n = "n div base"
  let ?buf = "buf[i := ?d]"
  have i: "i < length buf"
    using less.prems(2) base_gt_1
    by (cases "unat n < unat base") (simp_all add: digits_small digits_large)
  have step: "fill n buf i s = fill ?n ?buf (i + 1) s"
    using less.prems(1) i by (rule fill_step)
  have prefix: "take (i + 1) ?buf = take i buf @ [?d]"
    using i by (simp add: take_Suc_conv_app_nth)
  show ?case
  proof (cases "unat n < unat base")
    case True
    then have "?n = 0" by (simp add: word_unat_eq_iff unat_div)
    then show ?thesis using True step prefix by (simp add: digits_small fill_zero)
  next
    case False
    have pos: "0 < ?n" using False base_gt_1
      by (simp add: word_less_nat_alt unat_div div_greater_zero_iff)
    have ds: "ds n = ds ?n @ [?d]"
      using False base_gt_1 by (simp add: digits_large unat_div)
    have "unat ?n < unat n" using less.prems(1) base_gt_1
      by (simp add: unat_div word_less_nat_alt)
    moreover have "i + 1 + length (ds ?n) \<le> length ?buf" using less.prems(2) ds by simp
    ultimately obtain buf' where
      "fill ?n ?buf (i + 1) s = Return (buf', i + 1 + length (ds ?n)) s"
      "length buf' = length ?buf"
      "take (i + 1 + length (ds ?n)) buf' = take (i + 1) ?buf @ rev (ds ?n)"
      using less.hyps pos by blast
    then show ?thesis using step ds prefix by simp
  qed
qed

end

interpretation dec: digit_filler fill_dec 10 dec_digit
proof
  show "1 < unat (10 :: u64)" by simp
next
  fix buf i and s :: "'a hart_scheme"
  show "fill_dec 0 buf i s = Return (buf, i) s" by (simp add: fill_dec.simps ret_def)
next
  fix n :: u64 and i and buf :: "u8 list" and s :: "'a hart_scheme"
  assume n: "0 < n" and i: "i < length buf"
  have "unat n mod unat (10 :: u64) = unat (n mod 10)" by (simp add: unat_mod)
  then have "dec_digit (unat n mod unat (10 :: u64)) = 0x30 + ucast (n mod 10)"
    unfolding dec_digit_def by (simp only: of_nat_unat)
  then show "fill_dec n buf i s =
    fill_dec (n div 10) (buf[i := dec_digit (unat n mod unat (10 :: u64))]) (i + 1) s"
    using n i by (subst fill_dec.simps) simp
qed

interpretation hex: digit_filler fill_hex 16 hex_digit
proof
  show "1 < unat (16 :: u64)" by simp
next
  fix buf i and s :: "'a hart_scheme"
  show "fill_hex 0 buf i s = Return (buf, i) s" by (simp add: fill_hex.simps ret_def)
next
  fix n :: u64 and i and buf :: "u8 list" and s :: "'a hart_scheme"
  assume n: "0 < n" and i: "i < length buf"
  let ?d = "ucast (n AND 0xF) :: u8"
  have low: "n AND 0xF = n mod 16"
    using take_bit_eq_mod [of 4 n] by (simp add: take_bit_eq_mask mask_eq_decr_exp)
  have nibble: "unat ?d = unat n mod 16"
    by (simp add: low unsigned_ucast_eq unat_mod take_bit_eq_mod)
  then have "?d < 10 \<longleftrightarrow> unat n mod 16 < 10" by (simp add: word_less_nat_alt)
  moreover have "?d = of_nat (unat n mod 16)" using nibble by (metis of_nat_unat ucast_id)
  ultimately have "hex_digit (unat n mod unat (16 :: u64)) =
      (if ?d < 10 then 0x30 + ?d else 0x61 + ?d - 10)"
    by (simp add: hex_digit_def)
  then show "fill_hex n buf i s =
    fill_hex (n div 16) (buf[i := hex_digit (unat n mod unat (16 :: u64))]) (i + 1) s"
    using n i by (subst fill_hex.simps) (simp add: Let_def drop_bit_eq_div)
qed

lemma emits_drain: "k \<le> length buf \<Longrightarrow> emits (drain line buf k) (rev (take k buf))"
proof (induction k)
  case 0
  then show ?case by (simp add: emits_skip)
next
  case (Suc k)
  from Suc.prems have "k \<le> length buf" by simp
  from emits_then [OF emits_putc Suc.IH [OF this], of "buf ! k"] Suc.prems show ?case
    by (simp add: take_Suc_conv_app_nth)
qed

lemma emits_bind_pure:
  assumes "\<And>h. \<exists>a. m h = Return a h \<and> emits (f a) bs"
  shows "emits (bind_comp m f) bs"
  unfolding emits_def
proof
  fix h
  from assms [of h] obtain a where "m h = Return a h" "emits (f a) bs" by blast
  then show "if length bs \<le> tx_budget h
    then \<exists>vs tr. bind_comp m f h = Return () (h\<lparr>uart_in := vs, mmio_trace := mmio_trace h @ tr\<rparr>) \<and>
           thr_bytes tr = bs \<and> paced tr \<and> tx_ready vs = tx_budget h - length bs
    else \<exists>h'. bind_comp m f h = Hang h' \<and> console_step h h'"
    unfolding emits_def bind_comp_def by simp
qed

lemma dec_bytes_length: "length (dec_bytes (unat n)) \<le> 20" for n :: u64
proof -
  have "unat n < 2 ^ LENGTH(64)" by (rule unsigned_less)
  then have "unat n < 10 ^ 20" by simp
  then show ?thesis by (rule digits_length [rotated]) simp_all
qed

lemma hex_bytes_length: "length (hex_bytes (unat n)) \<le> 16" for n :: u64
proof -
  have "unat n < 2 ^ LENGTH(64)" by (rule unsigned_less)
  then have "unat n < 16 ^ 16" by simp
  then show ?thesis by (rule digits_length [rotated]) simp_all
qed

lemma emits_put_dec [emits_intros]: "emits (put_dec n) (dec_bytes (unat n))"
proof (cases "n = 0")
  case True
  then show ?thesis using emits_putc [of "0x30"] by (simp add: put_dec_def digits_small dec_digit_def)
next
  case False
  then have pos: "0 < n" by (simp add: word_neq_0_conv)
  have "\<exists>a. fill_dec n (replicate 20 0) 0 h = Return a h \<and>
      emits (case a of (buf, idx) \<Rightarrow> drain 101 buf idx) (dec_bytes (unat n))"
    for h :: "'a hart_scheme"
    using dec.fill_digits [OF pos, of 0 "replicate 20 0" h] dec_bytes_length [of n]
    by (auto simp: rev_swap intro!: emits_drain [THEN back_subst [of "emits _"]])
  from emits_bind_pure [OF this] False show ?thesis by (simp add: put_dec_def)
qed

lemma emits_put_hex [emits_intros]: "emits (put_hex n) (bytes ''0x'' @ hex_bytes (unat n))"
proof -
  have tail: "emits (if n = 0 then putc 0x30 :: ('a hart_scheme, unit) comp
      else bind_comp (fill_hex n (replicate 16 0) 0) (\<lambda>(buf, i). drain 123 buf i)) (hex_bytes (unat n))"
  proof (cases "n = 0")
    case True
    then show ?thesis using emits_putc [of "0x30"] by (simp add: digits_small hex_digit_def)
  next
    case False
    then have pos: "0 < n" by (simp add: word_neq_0_conv)
    have "\<exists>a. fill_hex n (replicate 16 0) 0 h = Return a h \<and>
        emits (case a of (buf, i) \<Rightarrow> drain 123 buf i) (hex_bytes (unat n))"
      for h :: "'a hart_scheme"
      using hex.fill_digits [OF pos, of 0 "replicate 16 0" h] hex_bytes_length [of n]
      by (auto simp: rev_swap intro!: emits_drain [THEN back_subst [of "emits _"]])
    from emits_bind_pure [OF this] False show ?thesis by simp
  qed
  show ?thesis unfolding put_hex_def
    using emits_then [OF emits_puts tail, of "''0x''"] by simp
qed

lemma emits_console_only: "emits m bs \<Longrightarrow> console_only m"
  unfolding console_only_def
proof
  fix h assume m: "emits m bs"
  show "console_step h (final_state (m h))"
  proof (cases "length bs \<le> tx_budget h")
    case True
    then obtain vs tr where
      "m h = Return () (h\<lparr>uart_in := vs, mmio_trace := mmio_trace h @ tr\<rparr>)"
      using emitsD [OF m] by metis
    then have "final_state (m h) = h\<lparr>uart_in := vs, mmio_trace := mmio_trace h @ tr\<rparr>" by simp
    then show ?thesis unfolding console_step_def by blast
  next
    case False
    with m show ?thesis by (auto elim!: emits_HangD)
  qed
qed

lemmas console_put_dec [console_intros] = emits_console_only [OF emits_put_dec]
lemmas console_put_hex [console_intros] = emits_console_only [OF emits_put_hex]

lemma console_try_getc [console_intros]: "console_only try_getc"
  unfolding try_getc_def by (intro console_intros)

lemma console_getc [console_intros]: "console_only getc"
  unfolding getc_def by (intro console_intros)

lemma console_uart_init [console_intros]: "console_only uart_init"
  unfolding uart_init_def by (intro console_intros) (simp add: console_intros)

section \<open>Numbers come back\<close>

definition dec_value :: "u8 \<Rightarrow> nat" where
  "dec_value c = unat c - 0x30"

definition hex_value :: "u8 \<Rightarrow> nat" where
  "hex_value c = (if unat c < 0x3A then unat c - 0x30 else unat c - 0x61 + 10)"

lemma digit_values:
  "d < 10 \<Longrightarrow> dec_value (dec_digit d) = d" "d < 16 \<Longrightarrow> hex_value (hex_digit d) = d"
proof -
  have u: "unat (0x30 + of_nat d :: u8) = 0x30 + d" if "d < 16" for d
    using that by (simp add: unat_word_ariths(1) unat_of_nat)
  show "d < 10 \<Longrightarrow> dec_value (dec_digit d) = d" by (simp add: dec_value_def dec_digit_def u)
  assume "d < 16"
  then show "hex_value (hex_digit d) = d"
  proof (cases "d < 10")
    case False
    then have "0x61 + of_nat d - 10 = (of_nat (0x57 + d) :: u8)" by simp
    moreover have "unat (of_nat (0x57 + d) :: u8) = 0x57 + d"
      using \<open>d < 16\<close> by (simp only: unat_of_nat) simp
    ultimately have "unat (hex_digit d) = 0x57 + d" using False by (simp only: hex_digit_def if_False)
    then show ?thesis using False by (simp add: hex_value_def)
  qed (simp add: hex_value_def hex_digit_def u)
qed

text \<open>
  C29: Numbers survive being printed. For every 64-bit number, when the transmitter takes 20 bytes,
  \<open>put_dec\<close> and \<open>put_hex\<close> return: neither loop runs past its buffer. The bytes they send, each
  after the status register showed room for it, are digits from which the number reads back
  (after the prefix \<open>0x\<close> in the second case).
\<close>

theorem put_numbers_roundtrip:
  assumes room: "20 \<le> tx_budget h"
  shows "(\<exists>h' tr. put_dec n h = Return () h' \<and> mmio_trace h' = mmio_trace h @ tr \<and> paced tr \<and>
      read_digits 10 dec_value (thr_bytes tr) = unat n) \<and>
    (\<exists>h' tr ds. put_hex n h = Return () h' \<and> mmio_trace h' = mmio_trace h @ tr \<and> paced tr \<and>
      thr_bytes tr = bytes ''0x'' @ ds \<and> read_digits 16 hex_value ds = unat n)"
proof
  have "length (dec_bytes (unat n)) \<le> tx_budget h" using room dec_bytes_length [of n] by simp
  then obtain vs tr where "put_dec n h = Return () (h\<lparr>uart_in := vs, mmio_trace := mmio_trace h @ tr\<rparr>)"
    "thr_bytes tr = dec_bytes (unat n)" "paced tr"
    by (rule emitsD [OF emits_put_dec])
  then show "\<exists>h' tr. put_dec n h = Return () h' \<and> mmio_trace h' = mmio_trace h @ tr \<and> paced tr \<and>
      read_digits 10 dec_value (thr_bytes tr) = unat n"
    by (simp add: read_digits_in digit_values)
next
  have "length (bytes ''0x'' @ hex_bytes (unat n)) \<le> tx_budget h" using room hex_bytes_length [of n] by simp
  then obtain vs tr where "put_hex n h = Return () (h\<lparr>uart_in := vs, mmio_trace := mmio_trace h @ tr\<rparr>)"
    "thr_bytes tr = bytes ''0x'' @ hex_bytes (unat n)" "paced tr"
    by (rule emitsD [OF emits_put_hex])
  then show "\<exists>h' tr ds. put_hex n h = Return () h' \<and> mmio_trace h' = mmio_trace h @ tr \<and> paced tr \<and>
      thr_bytes tr = bytes ''0x'' @ ds \<and> read_digits 16 hex_value ds = unat n"
    by (simp add: read_digits_in digit_values)
qed

theorem put_numbers_roundtrip_witness:
  "\<exists>h' tr. put_dec 1984 (reset_hart (replicate 20 0x20)) = Return () h' \<and> mmio_trace h' = tr \<and>
     read_digits 10 dec_value (thr_bytes tr) = 1984"
proof -
  have "20 \<le> tx_budget (reset_hart (replicate 20 0x20))"
    by (simp add: tx_budget_def tx_ready_def reset_hart_def LSR_TX_EMPTY_def)
  then show ?thesis
    using put_numbers_roundtrip [of "reset_hart (replicate 20 0x20)" 1984] by (auto simp: reset_hart_def)
qed

end
