(* ===== verification/Serial.thy ===== *)
theory Serial
  imports Uart16550
begin

text \<open>
  The backend-independent console: \<open>crates/kernel/src/serial.rs\<close> and
  \<open>crates/kernel/src/print.rs\<close>, with the STM32 stub
  \<open>crates/kernel/src/serial/usart_stm32.rs\<close>.

  The backend is selected at compile time, so the writer is a function of the backend's
  \<open>puts\<close>; the kernel model uses the default feature \<open>serial-uart16550\<close>. A formatted
  message is the list of pieces that \<open>core::fmt::write\<close> hands to the writer one by one.
\<close>

section \<open>Selection of the backend\<close>

text \<open>
  What a build with the given features gets: a compile error, or the names the selected backend
  provides to the kernel.
\<close>

definition serial_backend :: "bool \<Rightarrow> bool \<Rightarrow> string + string list" where
  "serial_backend uart16550 usart_stm32 =
     (if uart16550 \<and> usart_stm32 then Inl ''Select only one serial backend feature''
      else if \<not> (uart16550 \<or> usart_stm32) then
        Inl ''Select a serial backend feature: serial-uart16550 or serial-usart-stm32''
      else if uart16550 then
        Inr [''getc'', ''init'', ''put_dec'', ''put_hex'', ''putc'', ''puts'', ''try_getc'']
      else Inr [''getc'', ''init'', ''put_dec'', ''put_hex'', ''putc'', ''puts''])"

text \<open>
  The trap handler reads the console with \<open>try_getc\<close>, which only one of the builds provides: the
  kernel's operations are defined on that backend.
\<close>

lemma serial_backend_try_getc:
  "(\<exists>names. serial_backend a b = Inr names \<and> ''try_getc'' \<in> set names) \<longleftrightarrow> a \<and> \<not> b"
  by (simp add: serial_backend_def)

section \<open>The STM32 stub\<close>

definition unimplemented :: "nat \<Rightarrow> ('s, 'a) comp" where
  "unimplemented line = panic_at ''crates/kernel/src/serial/usart_stm32.rs'' line
     ''not implemented: USART backend not implemented yet''"

definition usart_init :: "('s, unit) comp" where
  "usart_init = unimplemented 2"

definition usart_putc :: "u8 \<Rightarrow> ('s, unit) comp" where
  "usart_putc c = unimplemented 6"

definition usart_puts :: "string \<Rightarrow> ('s, unit) comp" where
  "usart_puts s = unimplemented 10"

definition usart_put_dec :: "u64 \<Rightarrow> ('s, unit) comp" where
  "usart_put_dec n = unimplemented 14"

definition usart_put_hex :: "u64 \<Rightarrow> ('s, unit) comp" where
  "usart_put_hex n = unimplemented 18"

definition usart_getc :: "('s, u8) comp" where
  "usart_getc = unimplemented 22"

section \<open>Formatted output\<close>

datatype fmt_result = FmtOk | FmtErr

definition write_str :: "(string \<Rightarrow> ('s, unit) comp) \<Rightarrow> string \<Rightarrow> ('s, fmt_result) comp" where
  "write_str puts_op s = then_comp (puts_op s) (ret FmtOk)"

text \<open>\<open>core::fmt::write\<close> stops at the first piece the writer rejects.\<close>

primrec fmt_write :: "(string \<Rightarrow> ('s, fmt_result) comp) \<Rightarrow> string list \<Rightarrow> ('s, fmt_result) comp" where
  "fmt_write w [] = ret FmtOk"
| "fmt_write w (p # ps) =
     bind_comp (w p) (\<lambda>r. case r of FmtOk \<Rightarrow> fmt_write w ps | FmtErr \<Rightarrow> ret FmtErr)"

definition write_fmt :: "(string \<Rightarrow> ('s, unit) comp) \<Rightarrow> string list \<Rightarrow> ('s, unit) comp" where
  "write_fmt puts_op args = bind_comp (fmt_write (write_str puts_op) args) (\<lambda>r. case r of
      FmtErr \<Rightarrow> panic_at ''crates/kernel/src/serial.rs'' 41
        ''internal error: entered unreachable code: serial writer cannot fail''
    | FmtOk \<Rightarrow> skip)"

definition newline :: string where
  "newline = [char_of (10 :: nat)]"

definition fmt_dec :: "u64 \<Rightarrow> string" where
  "fmt_dec n = map (\<lambda>b. char_of (unat b)) (dec_bytes (unat n))"

definition fmt_hex :: "u64 \<Rightarrow> string" where
  "fmt_hex n = ''0x'' @ map (\<lambda>b. char_of (unat b)) (hex_bytes (unat n))"

definition print_args :: "string list \<Rightarrow> ('a hart_scheme, unit) comp" where
  "print_args args = write_fmt puts args"

definition print :: "string list \<Rightarrow> ('a hart_scheme, unit) comp" where
  "print args = print_args args"

definition println :: "string list \<Rightarrow> ('a hart_scheme, unit) comp" where
  "println args = print (args @ [newline])"

text \<open>
  The contract of a serial backend: sending strings one after the other sends their encodings
  one after the other. It is what the formatted output relies on.
\<close>

locale serial_port =
  fixes puts_op :: "string \<Rightarrow> ('s, unit) comp"
    and sends :: "('s, unit) comp \<Rightarrow> u8 list \<Rightarrow> bool"
    and encode :: "string \<Rightarrow> u8 list"
  assumes sends_nothing: "sends skip []"
    and sends_seq: "sends m bs \<Longrightarrow> sends n cs \<Longrightarrow> sends (then_comp m n) (bs @ cs)"
    and sends_puts: "sends (puts_op s) (encode s)"
begin

lemma write_fmt_block: "write_fmt puts_op args = block (map puts_op args)"
proof (induction args)
  case Nil
  then show ?case by (auto simp: write_fmt_def run_simps fun_eq_iff)
next
  case (Cons p ps)
  show ?case
  proof
    fix s
    show "write_fmt puts_op (p # ps) s = block (map puts_op (p # ps)) s"
      using fun_cong [OF Cons.IH]
      by (cases "puts_op p s")
        (simp_all add: write_fmt_def write_str_def then_comp_def bind_comp_def ret_def)
  qed
qed

lemma sends_block: "sends (block (map puts_op args)) (concat (map encode args))"
  by (induction args) (auto intro: sends_nothing sends_seq sends_puts)

lemma sends_write_fmt: "sends (write_fmt puts_op args) (concat (map encode args))"
  unfolding write_fmt_block by (rule sends_block)

end

interpretation uart: serial_port puts emits "\<lambda>s. crlf (bytes s)"
  by unfold_locales (rule emits_skip, erule (1) emits_then, rule emits_puts)

lemma of_char_of_u8: "of_char (char_of (unat b)) = b" for b :: u8
proof -
  have "unat b < 2 ^ LENGTH(8)" by (rule unsigned_less)
  then have "(of_char (char_of (unat b)) :: nat) = unat b" by simp
  then show ?thesis by (metis of_nat_of_char of_nat_unat ucast_id)
qed

lemma bytes_fmt_dec: "bytes (fmt_dec n) = dec_bytes (unat n)"
  by (simp add: fmt_dec_def of_char_of_u8 comp_def)

lemma bytes_fmt_hex: "bytes (fmt_hex n) = bytes ''0x'' @ hex_bytes (unat n)"
  by (simp add: fmt_hex_def of_char_of_u8 comp_def)

lemma crlf_concat: "concat (map (\<lambda>s. crlf (bytes s)) args) = crlf (bytes (concat args))"
  by (induction args) (auto simp: crlf_append)

lemma emits_print [emits_intros]: "emits (print args) (crlf (bytes (concat args)))"
  unfolding print_def print_args_def using uart.sends_write_fmt [of args] by (simp add: crlf_concat)

lemma emits_println [emits_intros]: "emits (println args) (crlf (bytes (concat args @ newline)))"
  unfolding println_def using emits_print [of "args @ [newline]"] by simp

lemmas console_print [console_intros] = emits_console_only [OF emits_print]
lemmas console_println [console_intros] = emits_console_only [OF emits_println]

end
