(* ===== verification/Pmp.thy ===== *)
theory Pmp
  imports Pmp_Unit Serial
begin

text \<open>
  The PMP driver, \<open>crates/kernel/src/pmp.rs\<close>. The CSR accesses of the \<open>asm!\<close> lines are
  those of theory \<open>Pmp_Unit\<close>; linker symbols are a record of addresses, the values that
  \<open>board/qemu-virt/linker.ld\<close> assigns.
\<close>

record linker_symbols =
  sym_stext :: u64
  sym_user_text_start :: u64
  sym_user_text_end :: u64
  sym_sbss :: u64
  sym_ebss :: u64
  sym_stack_top :: u64
  sym_sheap :: u64
  sym_eheap :: u64

section \<open>Flags and regions\<close>

definition flag_R :: u8 where "flag_R = push_bit 0 1"
definition flag_W :: u8 where "flag_W = push_bit 1 1"
definition flag_X :: u8 where "flag_X = push_bit 2 1"
definition A_OFF :: u8 where "A_OFF = push_bit 3 0"
definition A_TOR :: u8 where "A_TOR = push_bit 3 1"
definition A_NA4 :: u8 where "A_NA4 = push_bit 3 2"
definition A_NAPOT :: u8 where "A_NAPOT = push_bit 3 3"
definition flag_L :: u8 where "flag_L = push_bit 7 1"
definition RW :: u8 where "RW = flag_R OR flag_W"
definition RX :: u8 where "RX = flag_R OR flag_X"
definition RWX :: u8 where "RWX = flag_R OR flag_W OR flag_X"

lemmas flag_defs = flag_R_def flag_W_def flag_X_def A_OFF_def A_TOR_def A_NA4_def A_NAPOT_def
  flag_L_def RW_def RX_def RWX_def

record PmpRegion =
  region_base :: u64
  region_size :: u64
  region_flags :: u8

definition PmpRegion_new :: "u64 \<Rightarrow> u64 \<Rightarrow> u8 \<Rightarrow> PmpRegion" where
  "PmpRegion_new base sz fl = \<lparr>region_base = base, region_size = sz, region_flags = fl\<rparr>"

definition napot_addr :: "PmpRegion \<Rightarrow> u64" where
  "napot_addr r = drop_bit 2 (region_base r + (region_size r div 2 - 1))"

section \<open>Register access\<close>

definition write_pmpcfg0 :: "u64 \<Rightarrow> ('a hart_scheme, unit) comp" where
  "write_pmpcfg0 val = csrw_pmpcfg0 val"

definition write_pmpcfg2 :: "u64 \<Rightarrow> ('a hart_scheme, unit) comp" where
  "write_pmpcfg2 val = csrw_pmpcfg2 val"

definition read_pmpcfg0 :: "('a hart_scheme, u64) comp" where
  "read_pmpcfg0 = gets pmpcfg0_csr"

definition read_pmpcfg2 :: "('a hart_scheme, u64) comp" where
  "read_pmpcfg2 = gets pmpcfg2_csr"

definition write_pmpaddr :: "nat \<Rightarrow> u64 \<Rightarrow> ('a hart_scheme, unit) comp" where
  "write_pmpaddr idx val =
     (if idx < 16 then csrw_pmpaddr idx val
      else panic_at ''crates/kernel/src/pmp.rs'' 102 ''Invalid PMP index'')"

definition read_pmpaddr :: "nat \<Rightarrow> ('a hart_scheme, u64) comp" where
  "read_pmpaddr idx =
     (if idx < 16 then gets (\<lambda>h. pmpaddr_csr h ! idx)
      else panic_at ''crates/kernel/src/pmp.rs'' 124 ''Invalid PMP index'')"

section \<open>Loading a task's regions\<close>

text \<open>One iteration of the loop over entries 4 to 15.\<close>

definition load_entry ::
  "PmpRegion list \<Rightarrow> nat \<Rightarrow> u64 \<times> u64 \<Rightarrow> ('a hart_scheme, u64 \<times> u64) comp"
where
  "load_entry regions idx acc =
     (let (task_cfg0_high, cfg2) = acc;
          region = (if idx < length regions then regions ! idx else PmpRegion_new 0 0 0)
      in if region_size region = 0 then then_comp (write_pmpaddr idx 0) (ret acc)
         else then_comp (write_pmpaddr idx (napot_addr region))
           (let cfg_byte = ucast (region_flags region OR A_NAPOT) :: u64;
                shift = (idx mod 8) * 8
            in if idx < 8 then ret (task_cfg0_high OR push_bit shift cfg_byte, cfg2)
               else ret (task_cfg0_high, cfg2 OR push_bit shift cfg_byte)))"

primrec load_entries ::
  "PmpRegion list \<Rightarrow> nat list \<Rightarrow> u64 \<times> u64 \<Rightarrow> ('a hart_scheme, u64 \<times> u64) comp"
where
  "load_entries regions [] acc = ret acc"
| "load_entries regions (idx # idxs) acc =
     bind_comp (load_entry regions idx acc) (load_entries regions idxs)"

definition load_task_config :: "PmpRegion list \<Rightarrow> ('a hart_scheme, unit) comp" where
  "load_task_config regions =
     bind_comp read_pmpcfg0 (\<lambda>current_cfg0.
     let kernel_cfg0_bits = current_cfg0 AND 0x00000000FFFFFFFF in
     then_comp (write_pmpcfg0 kernel_cfg0_bits)
     (then_comp (write_pmpcfg2 0)
     (bind_comp (load_entries regions [4..<PMP_COUNT] (0, 0)) (\<lambda>(task_cfg0_high, cfg2).
      then_comp (write_pmpcfg0 (kernel_cfg0_bits OR task_cfg0_high))
      (write_pmpcfg2 cfg2)))))"

section \<open>Reading a configuration back\<close>

definition save_entry :: "u64 \<Rightarrow> u64 \<Rightarrow> nat \<Rightarrow> ('a hart_scheme, PmpRegion) comp" where
  "save_entry cfg0 cfg2 idx =
     (let cfg_val = (if idx < 8 then ucast (drop_bit ((idx mod 8) * 8) cfg0 AND 0xFF) :: u8
                     else ucast (drop_bit ((idx mod 8) * 8) cfg2 AND 0xFF))
      in bind_comp (read_pmpaddr idx) (\<lambda>addr.
           ret \<lparr>region_base = push_bit 2 addr, region_size = 8, region_flags = cfg_val\<rparr>))"

primrec save_entries :: "u64 \<Rightarrow> u64 \<Rightarrow> nat list \<Rightarrow> ('a hart_scheme, PmpRegion list) comp" where
  "save_entries cfg0 cfg2 [] = ret []"
| "save_entries cfg0 cfg2 (idx # idxs) =
     bind_comp (save_entry cfg0 cfg2 idx) (\<lambda>r.
     bind_comp (save_entries cfg0 cfg2 idxs) (\<lambda>rs. ret (r # rs)))"

definition save_current_config :: "('a hart_scheme, PmpRegion list) comp" where
  "save_current_config =
     bind_comp read_pmpcfg0 (\<lambda>cfg0.
     bind_comp read_pmpcfg2 (\<lambda>cfg2. save_entries cfg0 cfg2 [0..<PMP_COUNT]))"

section \<open>Single entries and initialisation\<close>

definition set_pmpcfg :: "nat \<Rightarrow> u8 \<Rightarrow> ('a hart_scheme, unit) comp" where
  "set_pmpcfg idx cfg =
     (let shift = (idx mod 8) * 8;
          msk = NOT (push_bit shift 0xFF) :: u64;
          val = push_bit shift (ucast cfg) :: u64
      in if idx < 8
         then bind_comp read_pmpcfg0 (\<lambda>current. write_pmpcfg0 ((current AND msk) OR val))
         else bind_comp read_pmpcfg2 (\<lambda>current. write_pmpcfg2 ((current AND msk) OR val)))"

definition configure_region :: "nat \<Rightarrow> PmpRegion \<Rightarrow> ('a hart_scheme, bool) comp" where
  "configure_region idx region =
     (if idx \<ge> PMP_COUNT then ret False
      else if \<not> is_power_of_two (region_size region) \<or> region_size region < 8 then
        then_comp (puts (''[pmp] Invalid region size (must be power of 2 >= 8)'' @ newline)) (ret False)
      else if region_base region AND (region_size region - 1) \<noteq> 0 then
        then_comp (puts (''[pmp] Base not aligned to size'' @ newline)) (ret False)
      else
        then_comp (write_pmpaddr idx (napot_addr region))
        (then_comp (set_pmpcfg idx (region_flags region OR A_NAPOT))
        (ret True)))"

definition clear_all :: "('a hart_scheme, unit) comp" where
  "clear_all = then_comp (write_pmpcfg0 0) (then_comp (write_pmpcfg2 0)
     (block (map (\<lambda>i. write_pmpaddr i 0) [0..<PMP_COUNT])))"

definition kernel_entry_regions :: "linker_symbols \<Rightarrow> PmpRegion list" where
  "kernel_entry_regions L = [
     PmpRegion_new (sym_stext L) 0 A_OFF,
     PmpRegion_new (sym_user_text_end L) 0 (flag_X OR flag_L OR A_TOR),
     PmpRegion_new (sym_eheap L) 0 (RW OR flag_L OR A_TOR),
     PmpRegion_new 0x10000000 0x00001000 (RW OR flag_L)]"

definition init_entry :: "nat \<Rightarrow> PmpRegion \<Rightarrow> ('a hart_scheme, unit) comp" where
  "init_entry i region =
     (let mode = region_flags region AND 0b00011000 in
      if mode = A_TOR then
        then_comp (write_pmpaddr i (drop_bit 2 (region_base region)))
          (set_pmpcfg i (region_flags region))
      else if region_size region > 0 then
        then_comp (configure_region i region) skip
      else if mode = A_OFF \<and> region_base region > 0 then
        write_pmpaddr i (drop_bit 2 (region_base region))
      else skip)"

definition pmp_init :: "linker_symbols \<Rightarrow> ('a hart_scheme, unit) comp" where
  "pmp_init L = block (
     clear_all #
     map (\<lambda>(i, region). init_entry i region) (enumerate 0 (kernel_entry_regions L)) @
     [puts (''[pmp] Kernel entries locked'' @ newline)])"

definition dump_config :: "('a hart_scheme, unit) comp" where
  "dump_config = block [
     puts (''[pmp] Configuration:'' @ newline),
     puts ''  pmpcfg0: '',
     bind_comp read_pmpcfg0 put_hex,
     puts (newline @ ''  pmpcfg2: ''),
     bind_comp read_pmpcfg2 put_hex,
     puts newline]"

section \<open>Running the register accesses\<close>

lemma pmp_access_runs [run_simps]:
  "read_pmpcfg0 h = Return (pmpcfg0_csr h) h"
  "read_pmpcfg2 h = Return (pmpcfg2_csr h) h"
  "write_pmpcfg0 v h = Return () (h\<lparr>pmpcfg0_csr := merge_locked (pmpcfg0_csr h) v\<rparr>)"
  "write_pmpcfg2 v h = Return () (h\<lparr>pmpcfg2_csr := merge_locked (pmpcfg2_csr h) v\<rparr>)"
  by (simp_all add: read_pmpcfg0_def read_pmpcfg2_def write_pmpcfg0_def write_pmpcfg2_def
      csrw_pmpcfg0_def csrw_pmpcfg2_def run_simps)

lemma write_pmpaddr_run:
  "i < 16 \<Longrightarrow> \<not> addr_locked h i \<Longrightarrow>
     write_pmpaddr i v h = Return () (h\<lparr>pmpaddr_csr := (pmpaddr_csr h)[i := v]\<rparr>)"
  by (simp add: write_pmpaddr_def csrw_pmpaddr_def run_simps)

lemma entry_cfg_addr_update [simp]:
  "entry_cfg (h\<lparr>pmpaddr_csr := pa\<rparr>) i = entry_cfg h i"
  "addr_locked (h\<lparr>pmpaddr_csr := pa\<rparr>) i = addr_locked h i"
  by (simp_all add: entry_cfg_def addr_locked_def)

text \<open>The configuration byte and the address a task's region asks for.\<close>

definition region_at :: "PmpRegion list \<Rightarrow> nat \<Rightarrow> PmpRegion" where
  "region_at regions i = (if i < length regions then regions ! i else PmpRegion_new 0 0 0)"

definition task_cfg :: "PmpRegion list \<Rightarrow> nat \<Rightarrow> u8" where
  "task_cfg regions i =
     (if region_size (region_at regions i) = 0 then 0
      else region_flags (region_at regions i) OR A_NAPOT)"

definition task_addr :: "PmpRegion list \<Rightarrow> nat \<Rightarrow> u64" where
  "task_addr regions i =
     (if region_size (region_at regions i) = 0 then 0 else napot_addr (region_at regions i))"

lemma push_bit_byte_at: "push_bit (n * 8) (ucast b) = byte_at n b"
  by (simp add: byte_at_def mult.commute)

lemma load_entry_run:
  assumes "i < 16" "\<not> addr_locked h i"
  shows "load_entry regions i (hi, c2) h =
    Return (if i < 8 then hi OR byte_at i (task_cfg regions i) else hi,
            if i < 8 then c2 else c2 OR byte_at (i - 8) (task_cfg regions i))
      (h\<lparr>pmpaddr_csr := (pmpaddr_csr h)[i := task_addr regions i]\<rparr>)"
proof -
  have "i mod 8 = (if i < 8 then i else i - 8)" using assms(1) by (simp add: mod_if)
  moreover have "byte_at n 0 = 0" for n by (simp add: byte_at_def)
  ultimately show ?thesis
    using write_pmpaddr_run [OF assms]
    by (auto simp: load_entry_def Let_def push_bit_byte_at task_cfg_def task_addr_def region_at_def
        run_simps)
qed

definition write_addrs :: "(nat \<Rightarrow> u64) \<Rightarrow> nat list \<Rightarrow> u64 list \<Rightarrow> u64 list" where
  "write_addrs f = fold (\<lambda>i pa. pa[i := f i])"

lemma write_addrs_simps [simp]:
  "write_addrs f [] pa = pa" "write_addrs f (i # is) pa = write_addrs f is (pa[i := f i])"
  by (simp_all add: write_addrs_def)

lemma length_write_addrs [simp]: "length (write_addrs f is pa) = length pa"
  by (induction "is" arbitrary: pa) auto

lemma nth_write_addrs:
  "j < length pa \<Longrightarrow> write_addrs f is pa ! j = (if j \<in> set is then f j else pa ! j)"
  by (induction "is" arbitrary: pa) (auto simp: nth_list_update)

lemma load_entries_run:
  assumes "\<forall>i\<in>set is. i < 16 \<and> \<not> addr_locked h i"
  shows "\<exists>hi' c2'. load_entries regions is (hi, c2) h =
      Return (hi', c2') (h\<lparr>pmpaddr_csr := write_addrs (task_addr regions) is (pmpaddr_csr h)\<rparr>) \<and>
    (\<forall>j<8. byte_of hi' j = byte_of hi j OR (if j \<in> set is then task_cfg regions j else 0)) \<and>
    (\<forall>j<8. byte_of c2' j = byte_of c2 j OR (if j + 8 \<in> set is then task_cfg regions (j + 8) else 0))"
  using assms
proof (induction "is" arbitrary: h hi c2)
  case Nil
  then show ?case by (simp add: run_simps)
next
  case (Cons i "is")
  let ?h = "h\<lparr>pmpaddr_csr := (pmpaddr_csr h)[i := task_addr regions i]\<rparr>"
  let ?hi = "if i < 8 then hi OR byte_at i (task_cfg regions i) else hi"
  let ?c2 = "if i < 8 then c2 else c2 OR byte_at (i - 8) (task_cfg regions i)"
  have i: "i < 16" "\<not> addr_locked h i" using Cons.prems by auto
  have rest: "\<forall>i\<in>set is. i < 16 \<and> \<not> addr_locked ?h i" using Cons.prems by simp
  from Cons.IH [OF rest, of ?hi ?c2] obtain hi' c2' where IH:
    "load_entries regions is (?hi, ?c2) ?h =
      Return (hi', c2') (?h\<lparr>pmpaddr_csr := write_addrs (task_addr regions) is (pmpaddr_csr ?h)\<rparr>)"
    "\<forall>j<8. byte_of hi' j = byte_of ?hi j OR (if j \<in> set is then task_cfg regions j else 0)"
    "\<forall>j<8. byte_of c2' j = byte_of ?c2 j OR (if j + 8 \<in> set is then task_cfg regions (j + 8) else 0)"
    by blast
  have run: "load_entries regions (i # is) (hi, c2) h =
      Return (hi', c2') (h\<lparr>pmpaddr_csr := write_addrs (task_addr regions) (i # is) (pmpaddr_csr h)\<rparr>)"
    using load_entry_run [OF i, of regions hi c2] IH(1) by (simp add: bind_comp_def)
  have "byte_of ?hi j = byte_of hi j OR (if j = i then task_cfg regions j else 0)" if "j < 8" for j
    using that by (auto simp: byte_of_OR byte_of_byte_at)
  moreover have "byte_of ?c2 j = byte_of c2 j OR (if j + 8 = i then task_cfg regions (j + 8) else 0)"
    if "j < 8" for j
    using that i(1) by (auto simp: byte_of_OR byte_of_byte_at)
  ultimately show ?case using run IH(2,3) by (intro exI [of _ hi'] exI [of _ c2']) (auto simp: or.assoc)
qed

lemma byte_low_half:
  assumes "j < 8"
  shows "byte_of 0x00000000FFFFFFFF j = (if j < 4 then - 1 else 0)"
proof -
  have "byte_of (mask 32) j = (if j < 4 then - 1 else 0)"
    by (rule bit_word_eqI) (use assms in \<open>auto simp: bit_byte_of bit_simps\<close>)
  then show ?thesis by (simp add: mask_eq_decr_exp)
qed

text \<open>
  The effect of loading a task's configuration when no switchable entry is locked.
\<close>

lemma load_task_config_run:
  assumes len: "length (pmpaddr_csr h) = 16"
    and unlocked: "\<forall>i\<in>{4..<16}. \<not> locked (entry_cfg h i)"
  shows "\<exists>c0 c2. load_task_config regions h =
      Return () (h\<lparr>pmpcfg0_csr := c0, pmpcfg2_csr := c2,
        pmpaddr_csr := write_addrs (task_addr regions) [4..<16] (pmpaddr_csr h)\<rparr>) \<and>
    (\<forall>j<8. byte_of c0 j = (if j < 4 then byte_of (pmpcfg0_csr h) j else task_cfg regions j)) \<and>
    (\<forall>j<8. byte_of c2 j = task_cfg regions (j + 8))"
proof -
  let ?kernel = "pmpcfg0_csr h AND 0x00000000FFFFFFFF"
  define c0 where "c0 = merge_locked (pmpcfg0_csr h) ?kernel"
  define c2 where "c2 = merge_locked (pmpcfg2_csr h) 0"
  define h1 where "h1 = h\<lparr>pmpcfg0_csr := c0, pmpcfg2_csr := c2\<rparr>"
  have un0: "\<not> locked (byte_of (pmpcfg0_csr h) j)" if "4 \<le> j" "j < 8" for j
    using unlocked that by (auto simp: entry_cfg_def dest: bspec [of _ _ j])
  have un2: "\<not> locked (byte_of (pmpcfg2_csr h) j)" if "j < 8" for j
    using unlocked that by (auto simp: entry_cfg_def dest: bspec [of _ _ "j + 8"])
  have kernel: "byte_of ?kernel j = (if j < 4 then byte_of (pmpcfg0_csr h) j else 0)" if "j < 8" for j
    using byte_low_half [OF that] by (simp add: byte_of_AND)
  have b0: "byte_of c0 j = (if j < 4 then byte_of (pmpcfg0_csr h) j else 0)" if "j < 8" for j
    using that un0 kernel [OF that] by (auto simp: c0_def byte_merge_locked)
  have b2: "byte_of c2 j = 0" if "j < 8" for j
    using that un2 by (simp add: c2_def byte_merge_locked)
  have free: "\<not> addr_locked h1 i" if "4 \<le> i" "i < 16" for i
  proof -
    have zero: "entry_cfg h1 j = 0" if "4 \<le> j" "j < 16" for j
      using that b0 [of j] b2 [of "j - 8"] by (simp add: entry_cfg_def h1_def)
    show ?thesis
      using zero [of i] zero [of "i + 1"] that
      by (auto simp: addr_locked_def locked_def PMP_COUNT_def)
  qed
  from load_entries_run [of "[4..<16]" h1 regions 0 0] free
  obtain hi' c2' where le: "load_entries regions [4..<16] (0, 0) h1 =
      Return (hi', c2') (h1\<lparr>pmpaddr_csr := write_addrs (task_addr regions) [4..<16] (pmpaddr_csr h1)\<rparr>)"
    "\<forall>j<8. byte_of hi' j = (if j \<in> {4..<16} then task_cfg regions j else 0)"
    "\<forall>j<8. byte_of c2' j = (if j + 8 \<in> {4..<16} then task_cfg regions (j + 8) else 0)"
    by auto
  let ?c0 = "merge_locked c0 (?kernel OR hi')" and ?c2 = "merge_locked c2 c2'"
  have "load_task_config regions h = Return () (h\<lparr>pmpcfg0_csr := ?c0, pmpcfg2_csr := ?c2,
        pmpaddr_csr := write_addrs (task_addr regions) [4..<16] (pmpaddr_csr h)\<rparr>)"
    using le(1)
    by (simp add: load_task_config_def Let_def bind_comp_def then_comp_def pmp_access_runs
        PMP_COUNT_def h1_def c0_def c2_def)
  moreover have "byte_of ?c0 j = (if j < 4 then byte_of (pmpcfg0_csr h) j else task_cfg regions j)"
    if "j < 8" for j
    using that b0 [OF that] kernel [OF that] le(2)
    by (auto simp: byte_merge_locked byte_of_OR locked_def)
  moreover have "byte_of ?c2 j = task_cfg regions (j + 8)" if "j < 8" for j
    using that b2 [OF that] le(3) by (simp add: byte_merge_locked locked_def)
  ultimately show ?thesis by blast
qed


section \<open>Locked entries\<close>

text \<open>
  Nothing the driver can execute changes a locked entry, nor the address register below a
  locked top-of-range entry.
\<close>

definition frozen_entry :: "nat \<Rightarrow> u8 \<Rightarrow> u64 \<Rightarrow> 'a hart_scheme \<Rightarrow> bool" where
  "frozen_entry i cfg pa h \<longleftrightarrow>
     i < PMP_COUNT \<and> length (pmpaddr_csr h) = PMP_COUNT \<and>
     locked cfg \<and> entry_cfg h i = cfg \<and> entry_addr h i = pa"

definition frozen_base :: "nat \<Rightarrow> u64 \<Rightarrow> 'a hart_scheme \<Rightarrow> bool" where
  "frozen_base i pa h \<longleftrightarrow>
     i + 1 < PMP_COUNT \<and> length (pmpaddr_csr h) = PMP_COUNT \<and>
     locked (entry_cfg h (i + 1)) \<and> addr_mode (entry_cfg h (i + 1)) = 1 \<and> entry_addr h i = pa"

lemma locked_survives_cfg0:
  "locked (entry_cfg h i) \<Longrightarrow> i < 16 \<Longrightarrow>
     entry_cfg (h\<lparr>pmpcfg0_csr := merge_locked (pmpcfg0_csr h) v\<rparr>) i = entry_cfg h i"
  by (auto simp: entry_cfg_def byte_merge_locked)

lemma locked_survives_cfg2:
  "locked (entry_cfg h i) \<Longrightarrow> i < 16 \<Longrightarrow>
     entry_cfg (h\<lparr>pmpcfg2_csr := merge_locked (pmpcfg2_csr h) v\<rparr>) i = entry_cfg h i"
  by (auto simp: entry_cfg_def byte_merge_locked)

lemma keeps_frozen_cfg0 [keeps_intros]: "keeps (frozen_entry i c a) (write_pmpcfg0 v)"
  by (rule keepsI)
    (auto simp: pmp_access_runs frozen_entry_def entry_addr_def PMP_COUNT_def locked_survives_cfg0)

lemma keeps_frozen_cfg2 [keeps_intros]: "keeps (frozen_entry i c a) (write_pmpcfg2 v)"
  by (rule keepsI)
    (auto simp: pmp_access_runs frozen_entry_def entry_addr_def PMP_COUNT_def locked_survives_cfg2)

lemma keeps_frozen_addr [keeps_intros]: "keeps (frozen_entry i c a) (write_pmpaddr j v)"
proof (rule keepsI)
  fix s :: "'a hart_scheme"
  assume "frozen_entry i c a s"
  then show "frozen_entry i c a (final_state (write_pmpaddr j v s))"
    by (cases "i = j")
      (auto simp: write_pmpaddr_def csrw_pmpaddr_def panic_at_def modify_def frozen_entry_def
        entry_addr_def addr_locked_def)
qed

lemma keeps_base_cfg0 [keeps_intros]: "keeps (frozen_base i a) (write_pmpcfg0 v)"
  by (rule keepsI)
    (auto simp: pmp_access_runs frozen_base_def entry_addr_def PMP_COUNT_def locked_survives_cfg0)

lemma keeps_base_cfg2 [keeps_intros]: "keeps (frozen_base i a) (write_pmpcfg2 v)"
  by (rule keepsI)
    (auto simp: pmp_access_runs frozen_base_def entry_addr_def PMP_COUNT_def locked_survives_cfg2)

lemma keeps_base_addr [keeps_intros]: "keeps (frozen_base i a) (write_pmpaddr j v)"
proof (rule keepsI)
  fix s :: "'a hart_scheme"
  assume "frozen_base i a s"
  then show "frozen_base i a (final_state (write_pmpaddr j v s))"
    by (cases "i = j")
      (auto simp: write_pmpaddr_def csrw_pmpaddr_def panic_at_def modify_def frozen_base_def
        entry_addr_def addr_locked_def)
qed

text \<open>A predicate on the PMP registers alone is kept by anything that only prints.\<close>

definition pmp_only :: "('a hart_scheme \<Rightarrow> bool) \<Rightarrow> bool" where
  "pmp_only P \<longleftrightarrow> (\<forall>h h'. pmpcfg0_csr h' = pmpcfg0_csr h \<longrightarrow> pmpcfg2_csr h' = pmpcfg2_csr h \<longrightarrow>
     pmpaddr_csr h' = pmpaddr_csr h \<longrightarrow> P h' = P h)"

lemma pmp_only_frozen [simp]: "pmp_only (frozen_entry i c a)" "pmp_only (frozen_base i a)"
  by (auto simp: pmp_only_def frozen_entry_def frozen_base_def entry_cfg_def entry_addr_def)

lemma keeps_console: "pmp_only P \<Longrightarrow> console_only m \<Longrightarrow> keeps P m"
  by (rule keepsI) (metis console_only_def console_stepD(8,9,10) pmp_only_def)

text \<open>
  Every routine of the driver is built from the same few register writes and from printing, so
  a predicate those keep is kept by all of them.
\<close>

locale pmp_invariant =
  fixes P :: "'a hart_scheme \<Rightarrow> bool"
  assumes keeps_cfg0: "keeps P (write_pmpcfg0 v)"
    and keeps_cfg2: "keeps P (write_pmpcfg2 v)"
    and keeps_addr: "keeps P (write_pmpaddr i v)"
    and keeps_message: "keeps P (puts s)"
begin

lemmas keeps_regs = keeps_cfg0 keeps_cfg2 keeps_addr

lemma keeps_reads: "keeps P read_pmpcfg0" "keeps P read_pmpcfg2" "keeps P (read_pmpaddr i)"
  unfolding read_pmpcfg0_def read_pmpcfg2_def read_pmpaddr_def
  by (auto intro: keeps_gets keeps_panic)

lemma keeps_load_entries: "keeps P (load_entries regions idxs acc)"
proof (induction idxs arbitrary: acc)
  case Nil
  then show ?case by (simp add: keeps_ret)
next
  case (Cons i idxs)
  have "keeps P (load_entry regions i acc)"
    unfolding load_entry_def Let_def
    by (auto split: prod.split intro!: keeps_then keeps_ret keeps_addr)
  then show ?case unfolding load_entries.simps by (rule keeps_bind) (rule Cons.IH)
qed

lemma keeps_load_task_config: "keeps P (load_task_config regions)"
  unfolding load_task_config_def Let_def
  by (auto intro!: keeps_bind keeps_then keeps_reads keeps_regs keeps_load_entries split: prod.split)

lemma keeps_set_pmpcfg: "keeps P (set_pmpcfg i c)"
  unfolding set_pmpcfg_def Let_def by (auto intro!: keeps_bind keeps_reads keeps_regs)

lemma keeps_configure_region: "keeps P (configure_region i r)"
  unfolding configure_region_def
  by (auto intro!: keeps_then keeps_ret keeps_regs keeps_set_pmpcfg keeps_message)

lemma keeps_clear_all: "keeps P clear_all"
  unfolding clear_all_def
  by (auto intro!: keeps_then keeps_block keeps_regs simp: list_all_iff)

lemma keeps_init_entry: "keeps P (init_entry i r)"
  unfolding init_entry_def Let_def
  by (auto intro!: keeps_then keeps_skip keeps_addr keeps_set_pmpcfg keeps_configure_region)

lemma keeps_pmp_init: "keeps P (pmp_init L)"
  unfolding pmp_init_def
  by (rule keeps_block)
    (auto simp: list_all_iff intro!: keeps_clear_all keeps_init_entry keeps_message)

end

interpretation frozen: pmp_invariant "frozen_entry i cfg pa" for i cfg pa
  by unfold_locales (simp_all add: keeps_intros keeps_console console_puts)

interpretation base: pmp_invariant "frozen_base i pa" for i pa
  by unfold_locales (simp_all add: keeps_intros keeps_console console_puts)

section \<open>Initialisation\<close>

text \<open>A hart out of reset: no entry is locked.\<close>

definition pmp_reset :: "'a hart_scheme \<Rightarrow> bool" where
  "pmp_reset h \<longleftrightarrow> length (pmpaddr_csr h) = 16 \<and> (\<forall>i<16. \<not> locked (entry_cfg h i))"

text \<open>The four entries \<open>pmp::init\<close> installs.\<close>

definition kernel_entries :: "linker_symbols \<Rightarrow> 'a hart_scheme \<Rightarrow> bool" where
  "kernel_entries L h \<longleftrightarrow> length (pmpaddr_csr h) = 16 \<and>
     entry_cfg h 0 = 0 \<and> entry_addr h 0 = drop_bit 2 (sym_stext L) \<and>
     entry_cfg h 1 = flag_X OR flag_L OR A_TOR \<and> entry_addr h 1 = drop_bit 2 (sym_user_text_end L) \<and>
     entry_cfg h 2 = RW OR flag_L OR A_TOR \<and> entry_addr h 2 = drop_bit 2 (sym_eheap L) \<and>
     entry_cfg h 3 = RW OR flag_L OR A_NAPOT \<and>
     entry_addr h 3 = napot_encode 0x10000000 0x1000"

lemma entry_eqI:
  assumes "\<And>i. i < 16 \<Longrightarrow> entry_cfg h i = entry_cfg g i"
  shows "pmpcfg0_csr h = pmpcfg0_csr g" "pmpcfg2_csr h = pmpcfg2_csr g"
proof -
  show "pmpcfg0_csr h = pmpcfg0_csr g"
  proof (rule u64_eq_bytesI)
    fix i :: nat assume "i < 8"
    with assms [of i] show "byte_of (pmpcfg0_csr h) i = byte_of (pmpcfg0_csr g) i"
      by (simp add: entry_cfg_def)
  qed
  show "pmpcfg2_csr h = pmpcfg2_csr g"
  proof (rule u64_eq_bytesI)
    fix i :: nat assume "i < 8"
    with assms [of "i + 8"] show "byte_of (pmpcfg2_csr h) i = byte_of (pmpcfg2_csr g) i"
      by (simp add: entry_cfg_def)
  qed
qed

lemma byte_of_cleared:
  assumes "i < 8" "j < 8"
  shows "byte_of ((w AND NOT (push_bit (i * 8) 0xFF)) OR push_bit (i * 8) (ucast c)) j =
    (if j = i then c else byte_of w j)"
proof -
  have ff: "(push_bit (i * 8) 0xFF :: u64) = byte_at i (- 1)"
    by (simp add: byte_at_def mult.commute unsigned_minus_1_eq_mask mask_eq_decr_exp)
  have "byte_of (NOT v) j = NOT (byte_of v j)" for v
    using assms by (intro bit_word_eqI) (auto simp: bit_byte_of bit_simps)
  then show ?thesis
    using assms unfolding ff push_bit_byte_at byte_of_OR byte_of_AND
    by (simp add: byte_of_byte_at)
qed

lemma set_pmpcfg_run:
  assumes "i < 16" "\<not> locked (entry_cfg h i)"
  shows "\<exists>c0 c2. set_pmpcfg i c h = Return () (h\<lparr>pmpcfg0_csr := c0, pmpcfg2_csr := c2\<rparr>) \<and>
    (\<forall>j<16. entry_cfg (h\<lparr>pmpcfg0_csr := c0, pmpcfg2_csr := c2\<rparr>) j =
      (if j = i then c else entry_cfg h j))"
proof (cases "i < 8")
  case True
  let ?c0 = "merge_locked (pmpcfg0_csr h)
    ((pmpcfg0_csr h AND NOT (push_bit (i * 8) 0xFF)) OR push_bit (i * 8) (ucast c))"
  have "set_pmpcfg i c h = Return () (h\<lparr>pmpcfg0_csr := ?c0, pmpcfg2_csr := pmpcfg2_csr h\<rparr>)"
    using True by (simp add: set_pmpcfg_def Let_def bind_comp_def pmp_access_runs)
  moreover have "entry_cfg (h\<lparr>pmpcfg0_csr := ?c0, pmpcfg2_csr := pmpcfg2_csr h\<rparr>) j =
      (if j = i then c else entry_cfg h j)" if "j < 16" for j
    using True assms that byte_of_cleared [OF True, of j]
    by (auto simp: entry_cfg_def byte_merge_locked)
  ultimately show ?thesis by blast
next
  case False
  then have i: "i mod 8 = i - 8" "i - 8 < 8" using assms(1) by (simp_all add: mod_if)
  let ?c2 = "merge_locked (pmpcfg2_csr h)
    ((pmpcfg2_csr h AND NOT (push_bit ((i - 8) * 8) 0xFF)) OR push_bit ((i - 8) * 8) (ucast c))"
  have "set_pmpcfg i c h = Return () (h\<lparr>pmpcfg0_csr := pmpcfg0_csr h, pmpcfg2_csr := ?c2\<rparr>)"
    using False i by (simp add: set_pmpcfg_def Let_def bind_comp_def pmp_access_runs)
  moreover have "entry_cfg (h\<lparr>pmpcfg0_csr := pmpcfg0_csr h, pmpcfg2_csr := ?c2\<rparr>) j =
      (if j = i then c else entry_cfg h j)" if "j < 16" for j
    using False assms that byte_of_cleared [OF i(2), of "j - 8"]
    by (auto simp: entry_cfg_def byte_merge_locked)
  ultimately show ?thesis by blast
qed

lemma clear_all_run:
  assumes "pmp_reset h"
  shows "clear_all h = Return () (h\<lparr>pmpcfg0_csr := 0, pmpcfg2_csr := 0, pmpaddr_csr := replicate 16 0\<rparr>)"
proof -
  have zero: "merge_locked w 0 = 0" if "\<And>j. j < 8 \<Longrightarrow> \<not> locked (byte_of w j)" for w
    using that by (intro u64_eq_bytesI) (simp add: byte_merge_locked)
  have "merge_locked (pmpcfg0_csr h) 0 = 0"
  proof (rule zero)
    fix j :: nat assume "j < 8"
    then show "\<not> locked (byte_of (pmpcfg0_csr h) j)"
      using assms by (auto simp: pmp_reset_def entry_cfg_def dest: spec [of _ j])
  qed
  moreover have "merge_locked (pmpcfg2_csr h) 0 = 0"
  proof (rule zero)
    fix j :: nat assume "j < 8"
    then show "\<not> locked (byte_of (pmpcfg2_csr h) j)"
      using assms by (auto simp: pmp_reset_def entry_cfg_def dest: spec [of _ "j + 8"])
  qed
  moreover have "block (map (\<lambda>i. write_pmpaddr i 0) is) g =
      Return () (g\<lparr>pmpaddr_csr := write_addrs (\<lambda>_. 0) is (pmpaddr_csr g)\<rparr>)"
    if "\<forall>i\<in>set is. i < 16" "pmpcfg0_csr g = 0" "pmpcfg2_csr g = 0" for "is" and g :: "'a hart_scheme"
    using that
  proof (induction "is" arbitrary: g)
    case Nil
    then show ?case by (simp add: skip_run)
  next
    case (Cons i "is")
    then have "\<not> addr_locked g i" by (simp add: addr_locked_def entry_cfg_def locked_def)
    with Cons show ?case
      by (simp add: then_comp_def bind_comp_def write_pmpaddr_run)
  qed
  moreover have "write_addrs (\<lambda>_. 0) [0..<16] (pmpaddr_csr h) = replicate 16 0"
    using assms by (intro nth_equalityI) (auto simp: pmp_reset_def nth_write_addrs)
  ultimately show ?thesis
    by (simp add: clear_all_def then_comp_def bind_comp_def pmp_access_runs PMP_COUNT_def)
qed

end
