(* ===== verification/Task.thy ===== *)
theory Task
  imports Registers Pmp
begin

text \<open>
  Tasks: the types of \<open>crates/kernel/src/sched/task.rs\<close> and the task descriptions of
  \<open>crates/kernel/src/sched/task/spec.rs\<close> (spawning, which needs the scheduler, is in theory
  \<open>Scheduler\<close>). A failing \<open>assert!\<close> of the builder is a panic.
\<close>

section \<open>States and identifiers\<close>

datatype TaskState = Created | Ready | Running | Dead

datatype TaskId = TaskId u8

section \<open>PMP configurations\<close>

record PmpConfig =
  cfg_regions :: "PmpRegion list"

definition PmpConfig_empty :: PmpConfig where
  "PmpConfig_empty = \<lparr>cfg_regions = replicate PMP_COUNT (PmpRegion_new 0 0 0)\<rparr>"

record PmpConfigBuilder =
  b_regions :: "PmpRegion list"
  next_idx :: nat

definition builder :: PmpConfigBuilder where
  "builder = \<lparr>b_regions = replicate PMP_COUNT (PmpRegion_new 0 0 0), next_idx = 4\<rparr>"

definition builder_region ::
  "u64 \<Rightarrow> u64 \<Rightarrow> u8 \<Rightarrow> PmpConfigBuilder \<Rightarrow> ('s, PmpConfigBuilder) comp"
where
  "builder_region base sz fl b =
     (if \<not> next_idx b < PMP_COUNT
      then panic_at ''crates/kernel/src/sched/task.rs'' 221 ''PMP region table full''
      else if \<not> (sz \<ge> 8 \<and> is_power_of_two sz)
      then panic_at ''crates/kernel/src/sched/task.rs'' 222
        ''PMP region size must be a power of 2 and at least 8 bytes''
      else if \<not> (base AND (sz - 1) = 0)
      then panic_at ''crates/kernel/src/sched/task.rs'' 226 ''PMP region base must be aligned to size''
      else ret (b\<lparr>b_regions := (b_regions b)[next_idx b := PmpRegion_new base sz fl],
                  next_idx := next_idx b + 1\<rparr>))"

definition code_region :: "u64 \<Rightarrow> u64 \<Rightarrow> PmpConfigBuilder \<Rightarrow> ('s, PmpConfigBuilder) comp" where
  "code_region base sz = builder_region base sz RX"

definition stack_region :: "u64 \<Rightarrow> u64 \<Rightarrow> PmpConfigBuilder \<Rightarrow> ('s, PmpConfigBuilder) comp" where
  "stack_region base sz = builder_region base sz RW"

definition mmio_region :: "u64 \<Rightarrow> u64 \<Rightarrow> PmpConfigBuilder \<Rightarrow> ('s, PmpConfigBuilder) comp" where
  "mmio_region base sz = builder_region base sz RW"

definition build :: "PmpConfigBuilder \<Rightarrow> PmpConfig" where
  "build b = \<lparr>cfg_regions = b_regions b\<rparr>"

section \<open>The task control block\<close>

record Task =
  task_id :: TaskId
  task_state :: TaskState
  task_context :: TaskContext
  pmp_config :: PmpConfig
  stack_bottom :: u64
  stack_top :: u64
  entry_point :: u64

definition Task_new :: "TaskId \<Rightarrow> u64 \<Rightarrow> u64 \<Rightarrow> Task" where
  "Task_new i e st = \<lparr>task_id = i, task_state = Created, task_context = TaskContext_new_umode e st,
     pmp_config = PmpConfig_empty, stack_bottom = st - TASK_STACK_SIZE, stack_top = st,
     entry_point = e\<rparr>"

section \<open>Task descriptions\<close>

datatype TaskMode = MMode | UMode (code_base: u64) (code_size: u64) (mmio: "(u64 \<times> u64) list")

record TaskSpec =
  spec_entry :: u64
  spec_mode :: TaskMode

definition TaskSpec_machine :: "u64 \<Rightarrow> TaskSpec" where
  "TaskSpec_machine e = \<lparr>spec_entry = e, spec_mode = MMode\<rparr>"

definition TaskSpec_user :: "u64 \<Rightarrow> u64 \<Rightarrow> u64 \<Rightarrow> (u64 \<times> u64) list \<Rightarrow> TaskSpec" where
  "TaskSpec_user e base sz regs = \<lparr>spec_entry = e, spec_mode = UMode base sz regs\<rparr>"

text \<open>The builder chain of a user task: code, stack, then the MMIO regions in order.\<close>

primrec add_mmio :: "(u64 \<times> u64) list \<Rightarrow> PmpConfigBuilder \<Rightarrow> ('s, PmpConfigBuilder) comp" where
  "add_mmio [] b = ret b"
| "add_mmio (r # rs) b = bind_comp (mmio_region (fst r) (snd r) b) (add_mmio rs)"

definition user_pmp :: "u64 \<Rightarrow> u64 \<Rightarrow> (u64 \<times> u64) list \<Rightarrow> u64 \<Rightarrow> ('s, PmpConfig) comp" where
  "user_pmp base sz regs bottom =
     bind_comp (code_region base sz builder) (\<lambda>b.
     bind_comp (stack_region bottom TASK_STACK_SIZE b) (\<lambda>b.
     bind_comp (add_mmio regs b) (\<lambda>b. ret (build b))))"

end
