(* ===== verification/Sync.thy ===== *)
theory Sync
  imports Hart
begin

text \<open>
  Synchronisation: \<open>crates/kernel/src/sync/irq_cell.rs\<close> and
  \<open>crates/kernel/src/sync/atomic_counter.rs\<close>.

  The cell's content is a field of the kernel state; the closure passed to \<open>with_lock\<close> is a
  computation on that state, which changes the content in place.
\<close>

section \<open>AtomicCounter\<close>

record AtomicCounter =
  inner :: u64

definition AtomicCounter_new :: "u64 \<Rightarrow> AtomicCounter" where
  "AtomicCounter_new val = \<lparr>inner = val\<rparr>"

text \<open>\<open>fetch_add\<close> returns the old value and wraps around.\<close>

definition AtomicCounter_increment :: "AtomicCounter \<Rightarrow> u64 \<times> AtomicCounter" where
  "AtomicCounter_increment c = (inner c, c\<lparr>inner := inner c + 1\<rparr>)"

definition AtomicCounter_get :: "AtomicCounter \<Rightarrow> u64" where
  "AtomicCounter_get c = inner c"

section \<open>IrqCell\<close>

definition with_lock :: "('a hart_scheme, 'r) comp \<Rightarrow> ('a hart_scheme, 'r) comp" where
  "with_lock f =
     bind_comp mstatus_read (\<lambda>mstatus.
     then_comp (mstatus_clear_bits (push_bit 3 1))
     (bind_comp f (\<lambda>result.
      then_comp (if mstatus AND push_bit 3 1 \<noteq> 0 then mstatus_set_bits (push_bit 3 1) else skip)
      (ret result))))"

lemma and_8_iff: "w AND 8 \<noteq> 0 \<longleftrightarrow> bit w 3" for w :: u64
  using and_exp_eq_0_iff_not_bit [of w 3] by simp

text \<open>
  Leaving the critical section gives back the interrupt enable bit as it was found, whatever
  else the closure did to the CSR.
\<close>

lemma bit_8: "bit (8 :: u64) n \<longleftrightarrow> n = 3"
proof -
  have "bit (2 ^ 3 :: u64) n \<longleftrightarrow> n = 3" unfolding bit_exp_iff by (auto simp: possible_bit_def)
  then show ?thesis by simp
qed

lemma restore_bit:
  assumes "\<And>n. bit m n \<longleftrightarrow> n = k" and "bit v k = bit w k"
  shows "(if bit w k then (v AND NOT m) OR m else v AND NOT m) = (v :: u64)"
proof (rule bit_word_eqI)
  fix n assume "n < LENGTH(64)"
  then show "bit (if bit w k then (v AND NOT m) OR m else v AND NOT m) n = bit v n"
    using assms by (cases "n = k") (auto simp: bit_simps)
qed

lemmas restore_MIE = restore_bit [OF bit_8]

lemma with_lock_eq:
  "with_lock f h =
     (case f (h\<lparr>mstatus_csr := mstatus_csr h AND NOT 8\<rparr>) of
        Return r h1 \<Rightarrow>
          Return r (if bit (mstatus_csr h) 3 then h1\<lparr>mstatus_csr := mstatus_csr h1 OR 8\<rparr> else h1)
      | Panic i h1 \<Rightarrow> Panic i h1
      | Hang h1 \<Rightarrow> Hang h1)"
  by (cases "f (h\<lparr>mstatus_csr := mstatus_csr h AND NOT 8\<rparr>)")
    (auto simp: with_lock_def bind_comp_def then_comp_def and_8_iff
      csr_write_runs csr_read_runs ret_def skip_def)

text \<open>
  A closure that leaves the CSR alone finds interrupts masked and, when it returns, leaves the
  CSR as it was on entry.
\<close>

lemma with_lock_restores:
  assumes "with_lock f h = Return r h'"
    and keep: "\<And>h r h'. f h = Return r h' \<Longrightarrow> mstatus_csr h' = mstatus_csr h"
  shows "mstatus_csr h' = mstatus_csr h"
proof -
  obtain h1 where f: "f (h\<lparr>mstatus_csr := mstatus_csr h AND NOT 8\<rparr>) = Return r h1"
    and h': "h' = (if bit (mstatus_csr h) 3 then h1\<lparr>mstatus_csr := mstatus_csr h1 OR 8\<rparr> else h1)"
    using assms(1) by (auto simp: with_lock_eq split: outcome.splits)
  from keep [OF f] have "mstatus_csr h1 = mstatus_csr h AND NOT 8" by simp
  with h' show ?thesis
    using restore_MIE [of "mstatus_csr h" "mstatus_csr h"] by auto
qed

lemma keeps_with_lock [keeps_intros]:
  assumes "keeps P f" and "\<And>h v. P (h\<lparr>mstatus_csr := v\<rparr>) = P h"
  shows "keeps P (with_lock f)"
proof (rule keepsI)
  fix h assume "P h"
  then have "P (h\<lparr>mstatus_csr := mstatus_csr h AND NOT 8\<rparr>)" by (simp add: assms(2))
  from keepsD [OF assms(1) this] show "P (final_state (with_lock f h))"
    by (auto simp: with_lock_eq assms(2) split: outcome.splits)
qed

text \<open>
  A closure that only reads and replaces the content of the cell, given as a function on the
  content.
\<close>

definition on_cell ::
  "('s \<Rightarrow> 't) \<Rightarrow> ('t \<Rightarrow> 's \<Rightarrow> 's) \<Rightarrow> ('t \<Rightarrow> 'r \<times> 't) \<Rightarrow> ('s, 'r) comp"
where
  "on_cell sel upd g = bind_comp (gets sel) (\<lambda>t.
     then_comp (modify (upd (snd (g t)))) (ret (fst (g t))))"

text \<open>
  What a kernel static kept in a cell provides: the cell and the interrupt bit are different
  parts of the state. A closure that only looks at and replaces the content then runs as if
  there were no lock.
\<close>

locale irq_cell =
  fixes sel :: "'a hart_scheme \<Rightarrow> 't"
    and upd :: "'t \<Rightarrow> 'a hart_scheme \<Rightarrow> 'a hart_scheme"
  assumes sel_upd: "sel (upd t h) = t"
    and sel_mstatus: "sel (h\<lparr>mstatus_csr := v\<rparr>) = sel h"
    and mstatus_upd: "mstatus_csr (upd t h) = mstatus_csr h"
    and upd_mstatus: "upd t (h\<lparr>mstatus_csr := v\<rparr>) = (upd t h)\<lparr>mstatus_csr := v\<rparr>"
begin

lemma with_lock_on_cell:
  "with_lock (on_cell sel upd g) h = Return (fst (g (sel h))) (upd (snd (g (sel h))) h)"
proof -
  let ?t' = "snd (g (sel h))"
  have "(upd ?t' h)\<lparr>mstatus_csr := mstatus_csr h\<rparr> = upd ?t' h"
    using mstatus_upd [of ?t' h] by (cases "upd ?t' h") simp
  then show ?thesis
    using restore_MIE [of "mstatus_csr h" "mstatus_csr h"]
    by (auto simp: with_lock_eq on_cell_def bind_comp_def then_comp_def gets_def modify_def ret_def
        sel_mstatus upd_mstatus)
qed

text \<open>Two critical sections after each other are one.\<close>

lemma with_lock_sequence:
  "then_comp (with_lock (on_cell sel upd f)) (with_lock (on_cell sel upd g)) h =
   with_lock (on_cell sel upd (\<lambda>t. g (snd (f t)))) h"
  if "\<And>t t' h. upd t (upd t' h) = upd t h"
  by (simp add: then_comp_def bind_comp_def with_lock_on_cell sel_upd that)

end

end
