(* ===== verification/Allocator.thy ===== *)
theory Allocator
  imports Config
begin

text \<open>
  The bump heap allocator, \<open>crates/kernel/src/allocator.rs\<close>, and what it relies on of
  \<open>core::alloc::Layout\<close>.

  The retry loop of \<open>alloc\<close> goes round again only when the compare-exchange finds that
  \<open>next\<close> changed since it was loaded. The values that other contexts store into \<open>next\<close>
  between the load and the exchange of each round are the argument \<open>others\<close>; the loop is
  structural in it, and \<open>[]\<close> is an uninterrupted call.
\<close>

section \<open>Layout\<close>

record Layout =
  layout_size :: usize
  layout_align :: usize

text \<open>
  \<open>Layout::from_size_align\<close> accepts a power-of-two alignment and a size that does not exceed
  \<open>isize::MAX\<close> when rounded up to it.
\<close>

definition Layout_from_size_align :: "usize \<Rightarrow> usize \<Rightarrow> Layout option" where
  "Layout_from_size_align sz al =
     (if is_power_of_two al \<and> sz \<le> 0x8000000000000000 - al
      then Some \<lparr>layout_size = sz, layout_align = al\<rparr> else None)"

definition layout_ok :: "Layout \<Rightarrow> bool" where
  "layout_ok l \<longleftrightarrow> Layout_from_size_align (layout_size l) (layout_align l) = Some l"

section \<open>BumpAllocator\<close>

record BumpAllocator =
  heap_start :: usize
  heap_end :: usize
  next_ptr :: usize

definition BumpAllocator_new :: BumpAllocator where
  "BumpAllocator_new = \<lparr>heap_start = 0, heap_end = 0, next_ptr = 0\<rparr>"

definition BumpAllocator_init :: "usize \<Rightarrow> usize \<Rightarrow> BumpAllocator \<Rightarrow> BumpAllocator" where
  "BumpAllocator_init hs he a = a\<lparr>heap_start := hs, heap_end := he, next_ptr := hs\<rparr>"

definition align_up :: "usize \<Rightarrow> usize \<Rightarrow> usize" where
  "align_up current al = (current + al - 1) AND NOT (al - 1)"

fun alloc_loop :: "usize list \<Rightarrow> usize \<Rightarrow> Layout \<Rightarrow> BumpAllocator \<Rightarrow> usize \<times> BumpAllocator" where
  "alloc_loop others end_ptr l a =
     (let current = next_ptr a;
          aligned = align_up current (layout_align l);
          new_next = aligned + layout_size l
      in if new_next > end_ptr then (0, a)
         else case others of
             [] \<Rightarrow> (aligned, a\<lparr>next_ptr := new_next\<rparr>)
           | stored # rest \<Rightarrow>
               (let a' = a\<lparr>next_ptr := stored\<rparr>
                in if next_ptr a' = current then (aligned, a'\<lparr>next_ptr := new_next\<rparr>)
                   else alloc_loop rest end_ptr l a'))"

declare alloc_loop.simps [simp del]

definition alloc :: "usize list \<Rightarrow> Layout \<Rightarrow> BumpAllocator \<Rightarrow> usize \<times> BumpAllocator" where
  "alloc others l a = alloc_loop others (heap_end a) l a"

definition dealloc :: "usize \<Rightarrow> Layout \<Rightarrow> BumpAllocator \<Rightarrow> BumpAllocator" where
  "dealloc ptr l a = a"

section \<open>No wrap-around\<close>

text \<open>
  A heap that ends at or below \<open>2 ^ 63\<close>: on this board it ends below \<open>0x88000000\<close>.
\<close>

definition heap_ok :: "BumpAllocator \<Rightarrow> bool" where
  "heap_ok a \<longleftrightarrow> 0 < heap_start a \<and> heap_start a \<le> next_ptr a \<and> next_ptr a \<le> heap_end a \<and>
     unat (heap_end a) \<le> 2 ^ 63"

definition round_up :: "nat \<Rightarrow> nat \<Rightarrow> nat" where
  "round_up n al = (n + al - 1) div al * al"

lemma layout_okD:
  assumes "layout_ok l"
  obtains k where "k < 64" "layout_align l = 2 ^ k"
    "unat (layout_size l) + 2 ^ k \<le> 2 ^ 63" "unat (layout_align l) = 2 ^ k"
proof -
  from assms have "is_power_of_two (layout_align l)"
    and le: "layout_size l \<le> 0x8000000000000000 - layout_align l"
    by (auto simp: layout_ok_def Layout_from_size_align_def split: if_splits)
  then obtain k where k: "k < 64" "layout_align l = 2 ^ k" by (auto simp: is_power_of_two_iff)
  have al: "unat (layout_align l) = 2 ^ k" using k by (simp add: unat_pow2)
  have "2 ^ k \<le> (2 ^ 63 :: nat)" using k(1) by (intro power_increasing) auto
  then have "layout_align l \<le> 0x8000000000000000" using al by (simp add: word_le_nat_alt)
  then have "unat (0x8000000000000000 - layout_align l) = 2 ^ 63 - 2 ^ k"
    using al by (simp add: unat_sub)
  with le have "unat (layout_size l) \<le> 2 ^ 63 - 2 ^ k" by (simp add: word_le_nat_alt)
  with \<open>2 ^ k \<le> (2 ^ 63 :: nat)\<close> have "unat (layout_size l) + 2 ^ k \<le> 2 ^ 63" by simp
  with k al show ?thesis using that by blast
qed

lemma round_up_bounds:
  assumes "0 < al"
  shows "n \<le> round_up n al" "round_up n al \<le> n + al - 1" "al dvd round_up n al"
proof -
  have "(n + al - 1) mod al < al" using assms by simp
  moreover have "round_up n al = n + al - 1 - (n + al - 1) mod al"
    unfolding round_up_def by (metis minus_mod_eq_div_mult)
  ultimately show "n \<le> round_up n al" "round_up n al \<le> n + al - 1" by linarith+
  show "al dvd round_up n al" by (simp add: round_up_def)
qed

lemma round_up_least:
  assumes "0 < al" "n \<le> m" "al dvd m"
  shows "round_up n al \<le> m"
proof -
  from assms(3) obtain q where q: "m = al * q" by blast
  have "(n + al - 1) div al \<le> (al * q + al - 1) div al"
    using assms q by (intro div_le_mono) simp
  also have "\<dots> = q" using assms(1) by (simp add: div_nat_eqI)
  finally show ?thesis using q by (simp add: round_up_def mult.commute)
qed

lemma unat_align_up:
  assumes "k < 64" and "unat current + 2 ^ k \<le> 2 ^ 64"
  shows "unat (align_up current (2 ^ k)) = round_up (unat current) (2 ^ k)"
proof -
  have k: "unat (2 ^ k :: u64) = 2 ^ k" using assms(1) by (rule unat_pow2)
  have sum: "unat (current + (2 ^ k - 1)) = unat current + (2 ^ k - 1)"
  proof -
    have "unat (2 ^ k - 1 :: u64) = 2 ^ k - 1"
      using k by (metis pow2_minus_1_mask unat_minus_one unat_0 power_eq_0_iff zero_neq_numeral)
    then show ?thesis using assms(2) by (simp add: unat_word_ariths)
  qed
  have "align_up current (2 ^ k) = (current + (2 ^ k - 1)) AND NOT (2 ^ k - 1)"
    by (simp add: align_up_def add_diff_eq)
  then have "unat (align_up current (2 ^ k)) =
      (unat current + (2 ^ k - 1)) - (unat current + (2 ^ k - 1)) mod 2 ^ k"
    using unat_and_high [OF assms(1), of "current + (2 ^ k - 1)"] sum by simp
  then show ?thesis unfolding round_up_def
    by (metis Nat.add_diff_assoc minus_mod_eq_div_mult one_le_numeral one_le_power)
qed

lemma alloc_arith:
  assumes "heap_ok a" and "layout_ok l"
  shows "unat (align_up (next_ptr a) (layout_align l)) =
      round_up (unat (next_ptr a)) (unat (layout_align l))" (is ?A)
    and "unat (align_up (next_ptr a) (layout_align l) + layout_size l) =
      round_up (unat (next_ptr a)) (unat (layout_align l)) + unat (layout_size l)" (is ?B)
    and "0 < unat (layout_align l)" (is ?C)
proof -
  from assms(2) obtain k where k: "k < 64" "layout_align l = 2 ^ k"
    "unat (layout_size l) + 2 ^ k \<le> 2 ^ 63" "unat (layout_align l) = 2 ^ k"
    by (rule layout_okD)
  have n: "unat (next_ptr a) \<le> 2 ^ 63"
    using assms(1) by (auto simp: heap_ok_def word_le_nat_alt)
  with k(3) have "unat (next_ptr a) + 2 ^ k \<le> 2 ^ 64" by simp
  from unat_align_up [OF k(1) this] show A: ?A using k by simp
  have "round_up (unat (next_ptr a)) (2 ^ k) \<le> unat (next_ptr a) + 2 ^ k - 1"
    by (rule round_up_bounds) simp
  then have "round_up (unat (next_ptr a)) (2 ^ k) + unat (layout_size l) < 2 ^ 64"
    using n k(3) by simp
  then show ?B using A k by (simp add: unat_word_ariths)
  show ?C using k by simp
qed

text \<open>
  One round of the loop, in natural numbers: the candidate block, and whether it fits.
\<close>

definition block_start :: "Layout \<Rightarrow> BumpAllocator \<Rightarrow> nat" where
  "block_start l a = round_up (unat (next_ptr a)) (unat (layout_align l))"

definition fits :: "Layout \<Rightarrow> BumpAllocator \<Rightarrow> bool" where
  "fits l a \<longleftrightarrow> block_start l a + unat (layout_size l) \<le> unat (heap_end a)"

lemma alloc_null:
  assumes "heap_ok a" "layout_ok l" "\<not> fits l a"
  shows "alloc others l a = (0, a)"
  using assms alloc_arith(2) [OF assms(1,2)]
  by (simp add: alloc_def alloc_loop.simps Let_def word_less_nat_alt fits_def block_start_def)

lemma alloc_fits:
  assumes "heap_ok a" "layout_ok l" "fits l a" "alloc [] l a = (p, a')"
  shows "unat p = block_start l a"
    and "a' = a\<lparr>next_ptr := next_ptr a'\<rparr>"
    and "unat (next_ptr a') = unat p + unat (layout_size l)"
    and "heap_end a' = heap_end a" "heap_start a' = heap_start a"
  using assms alloc_arith [OF assms(1,2)]
  by (auto simp: alloc_def alloc_loop.simps Let_def word_less_nat_alt fits_def block_start_def)

lemma block_start_props:
  assumes "heap_ok a" "layout_ok l"
  shows "unat (next_ptr a) \<le> block_start l a" "unat (layout_align l) dvd block_start l a"
    "0 < block_start l a"
proof -
  have al: "0 < unat (layout_align l)" using alloc_arith(3) [OF assms] .
  show le: "unat (next_ptr a) \<le> block_start l a"
    unfolding block_start_def by (rule round_up_bounds(1) [OF al])
  show "unat (layout_align l) dvd block_start l a"
    unfolding block_start_def by (rule round_up_bounds(3) [OF al])
  have "0 < unat (next_ptr a)"
    using assms(1) by (auto simp: heap_ok_def word_le_nat_alt word_less_nat_alt)
  with le show "0 < block_start l a" by simp
qed

section \<open>The contract of an allocator, and sequences of allocations\<close>

fun alloc_all :: "(Layout \<Rightarrow> 'st \<Rightarrow> usize \<times> 'st) \<Rightarrow> Layout list \<Rightarrow> 'st \<Rightarrow> (usize \<times> Layout) list \<times> 'st" where
  "alloc_all f [] st = ([], st)"
| "alloc_all f (l # ls) st =
     (let (p, st1) = f l st; (bs, st2) = alloc_all f ls st1
      in (if p = 0 then bs else (p, l) # bs, st2))"

definition block_range :: "usize \<times> Layout \<Rightarrow> nat set" where
  "block_range b = {unat (fst b)..<unat (fst b) + unat (layout_size (snd b))}"

text \<open>
  What a client may rely on: a non-null result is aligned, and the block lies between the
  low-water marks before and after the call; null changes nothing.
\<close>

locale heap_allocator =
  fixes allocate :: "Layout \<Rightarrow> 'st \<Rightarrow> usize \<times> 'st"
    and inv :: "'st \<Rightarrow> bool"
    and low :: "'st \<Rightarrow> nat"
    and high :: "'st \<Rightarrow> nat"
  assumes alloc_inv: "inv st \<Longrightarrow> layout_ok l \<Longrightarrow> allocate l st = (p, st') \<Longrightarrow> inv st'"
    and alloc_high: "inv st \<Longrightarrow> layout_ok l \<Longrightarrow> allocate l st = (p, st') \<Longrightarrow> high st' = high st"
    and alloc_block: "inv st \<Longrightarrow> layout_ok l \<Longrightarrow> allocate l st = (p, st') \<Longrightarrow> p \<noteq> 0 \<Longrightarrow>
      low st \<le> unat p \<and> unat p + unat (layout_size l) \<le> low st' \<and>
      unat (layout_align l) dvd unat p"
    and alloc_fail: "inv st \<Longrightarrow> layout_ok l \<Longrightarrow> allocate l st = (p, st') \<Longrightarrow> p = 0 \<Longrightarrow> st' = st"
    and low_high: "inv st \<Longrightarrow> low st \<le> high st"
begin

lemma alloc_low_mono:
  assumes "inv st" "layout_ok l" "allocate l st = (p, st')"
  shows "low st \<le> low st'"
  using alloc_block [OF assms] alloc_fail [OF assms] by (cases "p = 0") auto

lemma alloc_all_props:
  assumes "inv st" "list_all layout_ok ls" "alloc_all allocate ls st = (bs, st')"
  shows "inv st' \<and> high st' = high st \<and> low st \<le> low st' \<and>
    (\<forall>b\<in>set bs. layout_ok (snd b) \<and> unat (layout_align (snd b)) dvd unat (fst b) \<and>
       block_range b \<subseteq> {low st..<low st'}) \<and>
    sorted_wrt (\<lambda>b c. block_range b \<inter> block_range c = {}) bs"
  using assms
proof (induction ls arbitrary: st bs)
  case Nil
  then show ?case by simp
next
  case (Cons l ls)
  obtain p st1 where first: "allocate l st = (p, st1)" by (cases "allocate l st")
  obtain cs where rest: "alloc_all allocate ls st1 = (cs, st')" "bs = (if p = 0 then cs else (p, l) # cs)"
    using Cons.prems(3) first by (auto split: prod.splits)
  have l: "layout_ok l" "list_all layout_ok ls" using Cons.prems(2) by auto
  note inv1 = alloc_inv [OF Cons.prems(1) l(1) first]
  note IH = Cons.IH [OF inv1 l(2) rest(1)]
  note mono = alloc_low_mono [OF Cons.prems(1) l(1) first]
  have high1: "high st1 = high st" using alloc_high [OF Cons.prems(1) l(1) first] .
  have wide: "block_range c \<subseteq> {low st..<low st'}" if "c \<in> set cs" for c
    using IH that mono by fastforce
  show ?case
  proof (cases "p = 0")
    case True
    with IH rest wide mono high1 show ?thesis by auto
  next
    case False
    note blk = alloc_block [OF Cons.prems(1) l(1) first False]
    then have sub: "block_range (p, l) \<subseteq> {low st..<low st1}" by (auto simp: block_range_def)
    then have disj: "block_range (p, l) \<inter> block_range c = {}" if "c \<in> set cs" for c
      using IH that by fastforce
    have "block_range (p, l) \<subseteq> {low st..<low st'}" using sub IH by fastforce
    with False IH rest wide mono high1 blk disj l(1) show ?thesis by auto
  qed
qed

end

interpretation bump: heap_allocator "alloc []" heap_ok
  "\<lambda>a. unat (next_ptr a)" "\<lambda>a. unat (heap_end a)"
proof
  fix st l p st'
  assume ok: "heap_ok st" "layout_ok l" and al: "alloc [] l st = (p, st')"
  note bs = block_start_props [OF ok]
  have null: "\<not> fits l st \<Longrightarrow> p = 0 \<and> st' = st" using alloc_null [OF ok] al by simp
  have fit: "unat p = block_start l st" "st' = st\<lparr>next_ptr := next_ptr st'\<rparr>"
    "unat (next_ptr st') = unat p + unat (layout_size l)"
    "heap_end st' = heap_end st" "heap_start st' = heap_start st" if "fits l st"
    using alloc_fits [OF ok that al] by auto
  have ends: "heap_end st' = heap_end st" "heap_start st' = heap_start st"
    using null fit(4,5) by blast+
  show "heap_ok st'"
  proof (cases "fits l st")
    case True
    then show ?thesis
      using ok(1) ends fit bs(1) by (auto simp: heap_ok_def word_le_nat_alt fits_def)
  qed (use ok(1) null in simp)
  show "unat (heap_end st') = unat (heap_end st)" using ends by simp
  {
    assume "p \<noteq> 0"
    with null have "fits l st" by blast
    from fit [OF this] bs show "unat (next_ptr st) \<le> unat p \<and>
      unat p + unat (layout_size l) \<le> unat (next_ptr st') \<and> unat (layout_align l) dvd unat p"
      by simp
  next
    assume "p = 0"
    then show "st' = st" using fit(1) bs(3) null by (metis less_irrefl unat_0)
  }
next
  fix st :: BumpAllocator
  assume "heap_ok st"
  then show "unat (next_ptr st) \<le> unat (heap_end st)" by (simp add: heap_ok_def word_le_nat_alt)
qed

section \<open>Properties\<close>

text \<open>
  C36: For every layout that \<open>Layout::from_size_align\<close> can produce and every heap ending at
  or below \<open>2 ^ 63\<close>, \<open>alloc\<close> returns the lowest aligned address at or above \<open>next\<close>
  and advances \<open>next\<close> to the end of the block when the block fits, and returns null with the
  allocator unchanged when it does not. The two wrapping additions never wrap.
\<close>

theorem alloc_exact:
  assumes "heap_ok a" and "layout_ok l"
  shows "alloc [] l a =
    (let start = round_up (unat (next_ptr a)) (unat (layout_align l));
         stop = start + unat (layout_size l)
     in if stop \<le> unat (heap_end a)
        then (of_nat start, a\<lparr>next_ptr := of_nat stop\<rparr>) else (0, a))"
proof -
  let ?start = "round_up (unat (next_ptr a)) (unat (layout_align l))"
  let ?aligned = "align_up (next_ptr a) (layout_align l)"
  note ar = alloc_arith [OF assms]
  have "?aligned = of_nat ?start" using ar(1) by (metis of_nat_unat ucast_id)
  moreover have "?aligned + layout_size l = of_nat (?start + unat (layout_size l))"
    using ar(2) by (metis of_nat_unat ucast_id)
  ultimately show ?thesis
    using ar(2) by (simp add: alloc_def alloc_loop.simps Let_def word_less_nat_alt)
qed

theorem alloc_exact_witness:
  "alloc [] \<lparr>layout_size = 8192, layout_align = 8192\<rparr>
     \<lparr>heap_start = 0x80020000, heap_end = 0x81020000, next_ptr = 0x80020003\<rparr> =
   (0x80022000, \<lparr>heap_start = 0x80020000, heap_end = 0x81020000, next_ptr = 0x80024000\<rparr>)"
proof -
  let ?l = "\<lparr>layout_size = 8192, layout_align = 8192\<rparr>"
  let ?a = "\<lparr>heap_start = 0x80020000, heap_end = 0x81020000, next_ptr = 0x80020003\<rparr>"
  have "heap_ok ?a" by (simp add: heap_ok_def)
  moreover have "layout_ok ?l"
    by (simp add: layout_ok_def Layout_from_size_align_def is_power_of_two_def)
  ultimately show ?thesis using alloc_exact [of ?a ?l] by (simp add: round_up_def Let_def)
qed

text \<open>
  C37: Memory safety of the heap. Whatever sequence of requests is made after
  \<open>init(heap_start, heap_end)\<close>, the blocks handed out are pairwise disjoint, aligned as
  requested, and inside the heap.
\<close>

theorem alloc_blocks_disjoint:
  assumes "0 < hs" "hs \<le> he" "unat he \<le> 2 ^ 63" "list_all layout_ok ls"
    and "alloc_all (alloc []) ls (BumpAllocator_init hs he BumpAllocator_new) = (bs, a')"
  shows "sorted_wrt (\<lambda>b c. block_range b \<inter> block_range c = {}) bs \<and>
    (\<forall>b\<in>set bs. unat (layout_align (snd b)) dvd unat (fst b) \<and>
       block_range b \<subseteq> {unat hs..<unat he})"
proof -
  let ?a = "BumpAllocator_init hs he BumpAllocator_new"
  have ok: "heap_ok ?a" using assms(1-3) by (simp add: heap_ok_def BumpAllocator_init_def)
  have "unat (next_ptr ?a) = unat hs" "unat (heap_end ?a) = unat he"
    by (simp_all add: BumpAllocator_init_def)
  with bump.alloc_all_props [OF ok assms(4,5)] bump.low_high [of a'] show ?thesis by fastforce
qed

theorem alloc_blocks_disjoint_witness:
  "let (bs, a') = alloc_all (alloc [])
       [\<lparr>layout_size = 3, layout_align = 1\<rparr>, \<lparr>layout_size = 8192, layout_align = 8192\<rparr>,
        \<lparr>layout_size = 8192, layout_align = 8192\<rparr>]
       (BumpAllocator_init 0x80020000 0x81020000 BumpAllocator_new)
   in map fst bs = [0x80020000, 0x80022000, 0x80024000] \<and>
      sorted_wrt (\<lambda>b c. block_range b \<inter> block_range c = {}) bs"
proof -
  let ?ls = "[\<lparr>layout_size = 3, layout_align = 1\<rparr>, \<lparr>layout_size = 8192, layout_align = 8192\<rparr>,
        \<lparr>layout_size = 8192, layout_align = 8192\<rparr>] :: Layout list"
  obtain bs a' where run: "alloc_all (alloc []) ?ls
      (BumpAllocator_init 0x80020000 0x81020000 BumpAllocator_new) = (bs, a')"
    by (cases "alloc_all (alloc []) ?ls (BumpAllocator_init 0x80020000 0x81020000 BumpAllocator_new)")
  have "list_all layout_ok ?ls"
    by (simp add: layout_ok_def Layout_from_size_align_def is_power_of_two_def)
  from alloc_blocks_disjoint [OF _ _ _ this run]
  have "sorted_wrt (\<lambda>b c. block_range b \<inter> block_range c = {}) bs" by simp
  moreover have "map fst bs = [0x80020000, 0x80022000, 0x80024000]"
    using run by (auto simp: alloc_def alloc_loop.simps align_up_def BumpAllocator_init_def Let_def)
  ultimately show ?thesis using run by simp
qed



end
