(* ===== verification/Kernel_State.thy ===== *)
theory Kernel_State
  imports Task Sync Allocator
begin

text \<open>
  The kernel's static data: the hart's state extended with \<open>TICK_COUNT\<close>
  (\<open>crates/kernel/src/timer.rs\<close>), \<open>SCHEDULER\<close>
  (\<open>crates/kernel/src/sched/scheduler.rs\<close>) and \<open>ALLOCATOR\<close>
  (\<open>crates/kernel/src/main.rs\<close>).
\<close>

record SchedulerState =
  current :: "nat option"
  tasks :: "Task option list"

definition SCHEDULER_init :: SchedulerState where
  "SCHEDULER_init = \<lparr>current = None, tasks = [None, None, None, None]\<rparr>"

definition TICK_COUNT_init :: AtomicCounter where
  "TICK_COUNT_init = AtomicCounter_new 0"

definition ALLOCATOR_init :: BumpAllocator where
  "ALLOCATOR_init = BumpAllocator_new"

record kernel = hart +
  TICK_COUNT :: AtomicCounter
  SCHEDULER :: SchedulerState
  ALLOCATOR :: BumpAllocator

section \<open>The scheduler cell\<close>

abbreviation set_SCHEDULER :: "SchedulerState \<Rightarrow> 'a kernel_scheme \<Rightarrow> 'a kernel_scheme" where
  "set_SCHEDULER st k \<equiv> k\<lparr>SCHEDULER := st\<rparr>"

interpretation cell: irq_cell SCHEDULER set_SCHEDULER
  by unfold_locales simp_all

definition scheduler_closure ::
  "(SchedulerState \<Rightarrow> 'r \<times> SchedulerState) \<Rightarrow> ('a kernel_scheme, 'r) comp"
where
  "scheduler_closure = on_cell SCHEDULER set_SCHEDULER"

end
