(* ===== verification/Policy.thy ===== *)
theory Policy
  imports Config
begin

text \<open>
  The task selection policy, \<open>crates/kernel/src/sched/policy.rs\<close>, for any table size
  \<open>N\<close>. The readiness test is the closure the scheduler passes in.
\<close>

definition IDLE_TASK_INDEX :: nat where
  "IDLE_TASK_INDEX = 0"

primrec scan_ready :: "nat \<Rightarrow> nat \<Rightarrow> (nat \<Rightarrow> bool) \<Rightarrow> nat list \<Rightarrow> nat option" where
  "scan_ready N start is_ready [] = None"
| "scan_ready N start is_ready (offset # offsets) =
     (let idx = (start + offset) mod N in
      if idx \<noteq> IDLE_TASK_INDEX \<and> is_ready idx then Some idx
      else scan_ready N start is_ready offsets)"

definition scan_start :: "nat \<Rightarrow> nat option \<Rightarrow> nat" where
  "scan_start N current = (case current of
      None \<Rightarrow> (IDLE_TASK_INDEX + 1) mod N
    | Some c \<Rightarrow> (c + 1) mod N)"

definition select_next_ready :: "nat \<Rightarrow> nat option \<Rightarrow> (nat \<Rightarrow> bool) \<Rightarrow> nat option" where
  "select_next_ready N current is_ready =
     (if N = 0 then None
      else case scan_ready N (scan_start N current) is_ready [0..<N] of
          Some idx \<Rightarrow> Some idx
        | None \<Rightarrow> if is_ready IDLE_TASK_INDEX then Some IDLE_TASK_INDEX else None)"

section \<open>The scan\<close>

lemma scan_ready_Some:
  assumes "scan_ready N start is_ready os = Some i"
  obtains pre d post where "os = pre @ d # post" "i = (start + d) mod N" "i \<noteq> 0" "is_ready i"
    "\<forall>e\<in>set pre. (start + e) mod N = 0 \<or> \<not> is_ready ((start + e) mod N)"
  using assms
proof (induction os arbitrary: thesis)
  case Nil
  then show ?case by simp
next
  case (Cons d os)
  show ?case
  proof (cases "(start + d) mod N \<noteq> 0 \<and> is_ready ((start + d) mod N)")
    case True
    then show ?thesis using Cons.prems(1) [of "[]" d os] Cons.prems(2)
      by (auto simp: IDLE_TASK_INDEX_def Let_def split: if_splits)
  next
    case False
    then have "scan_ready N start is_ready os = Some i"
      using Cons.prems(2) by (auto simp: IDLE_TASK_INDEX_def Let_def split: if_splits)
    then obtain pre e post where "os = pre @ e # post" "i = (start + e) mod N" "i \<noteq> 0" "is_ready i"
      "\<forall>e\<in>set pre. (start + e) mod N = 0 \<or> \<not> is_ready ((start + e) mod N)"
      using Cons.IH by blast
    then show ?thesis using Cons.prems(1) [of "d # pre" e post] False by auto
  qed
qed

lemma scan_ready_None:
  "scan_ready N start is_ready os = None \<longleftrightarrow>
     (\<forall>d\<in>set os. (start + d) mod N = 0 \<or> \<not> is_ready ((start + d) mod N))"
  by (induction os) (auto simp: IDLE_TASK_INDEX_def Let_def)

text \<open>How far after \<open>start\<close> the scan meets index \<open>i\<close>.\<close>

definition scan_offset :: "nat \<Rightarrow> nat \<Rightarrow> nat \<Rightarrow> nat" where
  "scan_offset N start i = (i + N - start) mod N"

lemma scan_offset:
  assumes "start < N" "i < N"
  shows "scan_offset N start i < N" "(start + scan_offset N start i) mod N = i"
proof -
  show "scan_offset N start i < N" using assms by (simp add: scan_offset_def)
  have "(start + (i + N - start) mod N) mod N = (start + (i + N - start)) mod N"
    by (rule mod_add_right_eq)
  also have "start + (i + N - start) = i + N" using assms by simp
  finally show "(start + scan_offset N start i) mod N = i"
    using assms by (simp add: scan_offset_def)
qed

lemma scan_offset_unique:
  assumes "start < N" "d < N"
  shows "scan_offset N start ((start + d) mod N) = d"
proof (cases "start + d < N")
  case True
  then show ?thesis using assms by (simp add: scan_offset_def)
next
  case False
  then have "(start + d) mod N = start + d - N" using assms by (simp add: mod_if)
  then show ?thesis using False assms by (simp add: scan_offset_def)
qed

lemma scan_start_less: "0 < N \<Longrightarrow> scan_start N current < N"
  by (simp add: scan_start_def split: option.splits)

lemma upt_split_nth: "[0..<N] = pre @ d # post \<Longrightarrow> pre = [0..<d] \<and> d < N"
proof -
  assume eq: "[0..<N] = pre @ d # post"
  have len: "length pre < N" using arg_cong [OF eq, of length] by simp
  have "d = [0..<N] ! length pre" using eq by (simp add: nth_append)
  then have d: "d = length pre" using len by simp
  have "pre = take (length pre) [0..<N]" using eq by simp
  then show ?thesis using len d by (simp add: take_upt)
qed

lemma select_cases:
  assumes N: "0 < N" and sel: "select_next_ready N current is_ready = Some i"
  shows "i < N \<and> is_ready i"
    and "i \<noteq> 0 \<Longrightarrow> j < N \<Longrightarrow> j \<noteq> 0 \<Longrightarrow> is_ready j \<Longrightarrow>
      scan_offset N (scan_start N current) i \<le> scan_offset N (scan_start N current) j"
    and "i = 0 \<Longrightarrow> 0 < j \<Longrightarrow> j < N \<Longrightarrow> \<not> is_ready j"
proof -
  let ?st = "scan_start N current"
  have st: "?st < N" using N by (rule scan_start_less)
  have idle: "\<not> is_ready j" if "scan_ready N ?st is_ready [0..<N] = None" "0 < j" "j < N" for j
    using that scan_offset [OF st \<open>j < N\<close>] unfolding scan_ready_None
    by (metis atLeastLessThan_iff le0 less_numeral_extra(3) set_upt)
  have found: "i < N" "is_ready i" "i \<noteq> 0"
      "\<And>j. j < N \<Longrightarrow> j \<noteq> 0 \<Longrightarrow> is_ready j \<Longrightarrow> scan_offset N ?st i \<le> scan_offset N ?st j"
    if some: "scan_ready N ?st is_ready [0..<N] = Some i"
  proof -
    from some obtain pre d post where p: "[0..<N] = pre @ d # post" "i = (?st + d) mod N" "i \<noteq> 0"
      "is_ready i" "\<forall>e\<in>set pre. (?st + e) mod N = 0 \<or> \<not> is_ready ((?st + e) mod N)"
      by (rule scan_ready_Some)
    from upt_split_nth [OF p(1)] have pre: "pre = [0..<d]" and d: "d < N" by auto
    show "i < N" "is_ready i" "i \<noteq> 0" using p N by auto
    fix j assume j: "j < N" "j \<noteq> 0" "is_ready j"
    have off: "scan_offset N ?st i = d" using p(2) scan_offset_unique [OF st d] by simp
    have "\<not> scan_offset N ?st j < d"
    proof
      assume "scan_offset N ?st j < d"
      then have "(?st + scan_offset N ?st j) mod N = 0 \<or>
          \<not> is_ready ((?st + scan_offset N ?st j) mod N)"
        using p(5) pre by simp
      with scan_offset [OF st j(1)] j show False by simp
    qed
    with off show "scan_offset N ?st i \<le> scan_offset N ?st j" by simp
  qed
  show "i < N \<and> is_ready i"
    using sel found(1,2) N
    by (auto simp: select_next_ready_def IDLE_TASK_INDEX_def split: option.splits if_splits)
  show "i \<noteq> 0 \<Longrightarrow> j < N \<Longrightarrow> j \<noteq> 0 \<Longrightarrow> is_ready j \<Longrightarrow> scan_offset N ?st i \<le> scan_offset N ?st j"
    using sel found(4) N
    by (auto simp: select_next_ready_def IDLE_TASK_INDEX_def split: option.splits if_splits)
  show "i = 0 \<Longrightarrow> 0 < j \<Longrightarrow> j < N \<Longrightarrow> \<not> is_ready j"
    using sel found(3) idle N
    by (auto simp: select_next_ready_def IDLE_TASK_INDEX_def split: option.splits if_splits)
qed

lemma select_None:
  assumes "0 < N"
  shows "select_next_ready N current is_ready = None \<longleftrightarrow> (\<forall>j<N. \<not> is_ready j)"
proof -
  let ?st = "scan_start N current"
  have st: "?st < N" using assms by (rule scan_start_less)
  have "(\<forall>d\<in>set [0..<N]. (?st + d) mod N = 0 \<or> \<not> is_ready ((?st + d) mod N)) \<longleftrightarrow>
      (\<forall>j<N. j = 0 \<or> \<not> is_ready j)" (is "?L \<longleftrightarrow> ?R")
  proof
    assume ?L
    then show ?R using scan_offset [OF st] by (metis atLeastLessThan_iff le0 set_upt)
  next
    assume ?R
    then show ?L using assms by simp
  qed
  then show ?thesis
    using assms unfolding select_next_ready_def scan_ready_None [symmetric]
    by (auto simp: IDLE_TASK_INDEX_def split: option.splits)
qed

lemma select_rank:
  assumes N: "0 < N" and sel: "select_next_ready N current is_ready = Some i"
    and j: "0 < j" "j < N" "is_ready j" "i \<noteq> j"
  shows "scan_offset N (scan_start N (Some i)) j < scan_offset N (scan_start N current) j"
proof -
  let ?st = "scan_start N current"
  have st: "?st < N" using N by (rule scan_start_less)
  have i: "i < N" "i \<noteq> 0"
    using select_cases(1) [OF N sel] select_cases(3) [OF N sel _ j(1,2)] j(3) by auto
  define di dj where "di = scan_offset N ?st i" and "dj = scan_offset N ?st j"
  have le: "di \<le> dj" unfolding di_def dj_def
    using select_cases(2) [OF N sel i(2) j(2) _ j(3)] j(1) by simp
  have inv: "di < N" "(?st + di) mod N = i" "dj < N" "(?st + dj) mod N = j"
    unfolding di_def dj_def using scan_offset [OF st i(1)] scan_offset [OF st j(2)] by auto
  with le j(4) have less: "di < dj" by (metis le_neq_implies_less)
  let ?st' = "(i + 1) mod N"
  have "?st' = (?st + di + 1) mod N" using inv(2) by (metis mod_add_left_eq)
  then have "(?st' + (dj - di - 1)) mod N = (?st + di + 1 + (dj - di - 1)) mod N"
    by (simp add: mod_add_left_eq)
  also have "\<dots> = j" using less inv(4) by simp
  finally have "(?st' + (dj - di - 1)) mod N = j" .
  then have "scan_offset N ?st' j = dj - di - 1"
    using scan_offset_unique [of ?st' N "dj - di - 1"] N inv(3) by simp
  then show ?thesis using less by (simp add: scan_start_def dj_def)
qed

section \<open>The contract the scheduler relies on\<close>

text \<open>
  Successive selections: the choice made for each readiness predicate of a list, with the
  current task following the choices.
\<close>

primrec picks ::
  "(nat option \<Rightarrow> (nat \<Rightarrow> bool) \<Rightarrow> nat option) \<Rightarrow> nat option \<Rightarrow> (nat \<Rightarrow> bool) list \<Rightarrow> nat option list"
where
  "picks select cur [] = []"
| "picks select cur (r # rs) =
     (let nxt = select cur r
      in nxt # picks select (case nxt of None \<Rightarrow> cur | Some i \<Rightarrow> Some i) rs)"

locale task_selector =
  fixes select :: "nat option \<Rightarrow> (nat \<Rightarrow> bool) \<Rightarrow> nat option"
    and slots :: nat
    and rank :: "nat option \<Rightarrow> nat \<Rightarrow> nat"
  assumes select_ready: "select cur r = Some i \<Longrightarrow> i < slots \<and> r i"
    and select_none: "select cur r = None \<longleftrightarrow> (\<forall>j < slots. \<not> r j)"
    and idle_last: "select cur r = Some 0 \<Longrightarrow> 0 < j \<Longrightarrow> j < slots \<Longrightarrow> \<not> r j"
    and rank_decreases: "select cur r = Some i \<Longrightarrow> 0 < j \<Longrightarrow> j < slots \<Longrightarrow> r j \<Longrightarrow> i \<noteq> j \<Longrightarrow>
      rank (Some i) j < rank cur j"
    and rank_bound: "j < slots \<Longrightarrow> rank cur j < slots"
begin

lemma picks_within_rank:
  assumes "0 < j" "j < slots" "\<forall>r\<in>set rs. r j" "rank cur j < length rs"
  shows "Some j \<in> set (picks select cur rs)"
  using assms(3,4)
proof (induction rs arbitrary: cur)
  case Nil
  then show ?case by simp
next
  case (Cons r rs)
  have rj: "r j" using Cons.prems(1) by simp
  then obtain i where i: "select cur r = Some i" using select_none assms(2) by fastforce
  show ?case
  proof (cases "i = j")
    case True
    with i show ?thesis by (simp add: Let_def)
  next
    case False
    then have "rank (Some i) j < rank cur j" using rank_decreases [OF i assms(1,2) rj] by simp
    then have "rank (Some i) j < length rs" using Cons.prems(2) by simp
    then have "Some j \<in> set (picks select (Some i) rs)"
      using Cons.prems(1) by (intro Cons.IH) auto
    with i show ?thesis by (simp add: Let_def)
  qed
qed

lemma picks_fair:
  assumes "0 < j" "j < slots" "\<forall>r\<in>set rs. r j" "slots \<le> length rs"
  shows "Some j \<in> set (picks select cur rs)"
  using picks_within_rank [OF assms(1-3)] rank_bound [OF assms(2), of cur] assms(4) by simp

end

interpretation rr: task_selector "select_next_ready MAX_TASKS" MAX_TASKS
  "\<lambda>cur. scan_offset MAX_TASKS (scan_start MAX_TASKS cur)"
proof
  have N: "0 < MAX_TASKS" by (simp add: MAX_TASKS_def)
  fix cur r i j
  show "select_next_ready MAX_TASKS cur r = None \<longleftrightarrow> (\<forall>j<MAX_TASKS. \<not> r j)"
    by (rule select_None [OF N])
  show "scan_offset MAX_TASKS (scan_start MAX_TASKS cur) j < MAX_TASKS" if "j < MAX_TASKS"
    using scan_offset(1) [OF scan_start_less [OF N] that] .
  {
    assume sel: "select_next_ready MAX_TASKS cur r = Some i"
    show "i < MAX_TASKS \<and> r i" by (rule select_cases(1) [OF N sel])
    show "scan_offset MAX_TASKS (scan_start MAX_TASKS (Some i)) j
        < scan_offset MAX_TASKS (scan_start MAX_TASKS cur) j"
      if "0 < j" "j < MAX_TASKS" "r j" "i \<noteq> j"
      using select_rank [OF N sel that] .
  }
  show "\<not> r j" if "select_next_ready MAX_TASKS cur r = Some 0" "0 < j" "j < MAX_TASKS"
    using select_cases(3) [OF N that(1) refl that(2,3)] .
qed

section \<open>Properties\<close>


text \<open>
  The selection is sound and complete: a selected index is in range and ready, nothing is
  selected exactly when no slot is ready, and the idle slot is selected only when no other slot
  is ready.
\<close>

lemma select_next_ready_correct:
  assumes "0 < N"
  shows "(case select_next_ready N current is_ready of
      None \<Rightarrow> \<forall>j<N. \<not> is_ready j
    | Some i \<Rightarrow> i < N \<and> is_ready i \<and>
        (i = IDLE_TASK_INDEX \<longrightarrow> (\<forall>j<N. j \<noteq> IDLE_TASK_INDEX \<longrightarrow> \<not> is_ready j)))"
proof (cases "select_next_ready N current is_ready")
  case None
  moreover have "\<forall>j<N. \<not> is_ready j" using None select_None [OF assms] by blast
  ultimately show ?thesis by simp
next
  case (Some i)
  note sel = select_cases [OF assms Some]
  show ?thesis using Some sel(1) sel(3) by (auto simp: IDLE_TASK_INDEX_def)
qed

text \<open>
  Freedom from starvation: over any \<open>MAX_TASKS\<close> successive selections during which a non-idle
  task stays ready, that task is selected at least once, whatever the other tasks do.
\<close>

lemma select_no_starvation:
  assumes "0 < j" "j < MAX_TASKS" "\<forall>r\<in>set rs. r j" "MAX_TASKS \<le> length rs"
  shows "Some j \<in> set (picks (select_next_ready MAX_TASKS) cur rs)"
  using assms by (rule rr.picks_fair)

end
