(* ===== verification/Protection.thy ===== *)
theory Protection
  imports Pmp
begin

text \<open>
  What the PMP driver achieves: the state \<open>pmp::init\<close> leaves behind, that its locked entries
  outlast every later driver call, and, for each address, which accesses the hart then allows to
  the kernel and to a task whose regions \<open>pmp::load_task_config\<close> has loaded.
\<close>

section \<open>The memory layout\<close>

text \<open>What the linker script \<open>board/qemu-virt/linker.ld\<close> guarantees of the symbols.\<close>

definition linker_ok :: "linker_symbols \<Rightarrow> bool" where
  "linker_ok L \<longleftrightarrow>
     sym_stext L = 0x80000000 \<and>
     unat (sym_user_text_start L) mod 4096 = 0 \<and> unat (sym_user_text_end L) mod 4096 = 0 \<and>
     unat (sym_sbss L) mod 4096 = 0 \<and> unat (sym_stack_top L) mod 4096 = 0 \<and>
     unat (sym_sheap L) mod 4096 = 0 \<and>
     sym_stext L \<le> sym_user_text_start L \<and> sym_user_text_start L \<le> sym_user_text_end L \<and>
     sym_user_text_end L \<le> sym_sbss L \<and> sym_sbss L \<le> sym_ebss L \<and>
     unat (sym_ebss L) + 0x10000 \<le> unat (sym_stack_top L) \<and> sym_stack_top L \<le> sym_sheap L \<and>
     unat (sym_eheap L) = unat (sym_sheap L) + 0x1000000 \<and> sym_eheap L \<le> 0x88000000"

definition linker_example :: linker_symbols where
  "linker_example = \<lparr>sym_stext = 0x80000000, sym_user_text_start = 0x80008000,
     sym_user_text_end = 0x80009000, sym_sbss = 0x8000C000, sym_ebss = 0x8000D000,
     sym_stack_top = 0x8001D000, sym_sheap = 0x8001D000, sym_eheap = 0x8101D000\<rparr>"

lemma linker_example_ok: "linker_ok linker_example"
  by (simp add: linker_ok_def linker_example_def)

lemma kernel_flags:
  "flag_X OR flag_L OR A_TOR = 0x8C" "RW OR flag_L OR A_TOR = 0x8B" "RW OR flag_L = 0x83"
  "RW OR flag_L OR A_NAPOT = 0x9B"
  by (simp_all add: flag_defs)

lemma address_modes: "A_TOR = 8" "A_OFF = 0" "A_NAPOT = 0x18"
  by (simp_all add: flag_defs)

lemma locked_examples [simp]: "locked 0x8C" "locked 0x8B" "locked 0x9B" "\<not> locked 0"
  by (simp_all add: locked_def bit_iff_odd_drop_bit)

lemma addr_mode_examples [simp]:
  "addr_mode 0x8C = 1" "addr_mode 0x8B = 1" "addr_mode 0x9B = 3" "addr_mode 0 = 0"
  by (simp_all add: addr_mode_def)

lemma permits_examples [simp]:
  "permits 0x8C acc = (acc = AccExec)" "permits 0x8B acc = (acc \<noteq> AccExec)"
  "permits 0x9B acc = (acc \<noteq> AccExec)"
  by (cases acc; simp add: permits_def bit_iff_odd_drop_bit)+

text \<open>Programming a free entry: its address register, then its configuration byte.\<close>

definition entries_are :: "'a hart_scheme \<Rightarrow> (nat \<Rightarrow> u8) \<Rightarrow> u64 list \<Rightarrow> 'a hart_scheme \<Rightarrow> bool" where
  "entries_are h cfg pa g \<longleftrightarrow> length pa = 16 \<and> pmpaddr_csr g = pa \<and> (\<forall>i<16. entry_cfg g i = cfg i) \<and>
     g = h\<lparr>pmpcfg0_csr := pmpcfg0_csr g, pmpcfg2_csr := pmpcfg2_csr g, pmpaddr_csr := pa\<rparr>"

lemma pmp_frame:
  assumes "g = h\<lparr>pmpcfg0_csr := a, pmpcfg2_csr := b, pmpaddr_csr := c\<rparr>"
  shows "g\<lparr>pmpcfg0_csr := a', pmpcfg2_csr := b'\<rparr> =
      h\<lparr>pmpcfg0_csr := a', pmpcfg2_csr := b', pmpaddr_csr := c\<rparr>"
    and "g\<lparr>pmpaddr_csr := c'\<rparr> = h\<lparr>pmpcfg0_csr := a, pmpcfg2_csr := b, pmpaddr_csr := c'\<rparr>"
  using assms by (auto intro: hart.equality)

lemma write_entry:
  assumes g: "entries_are h cfg pa g" and i: "i < 16" "\<not> locked (cfg i)"
    "i + 1 < 16 \<longrightarrow> \<not> locked (cfg (i + 1))"
  shows "\<exists>g'. write_pmpaddr i v g = Return () g' \<and> entries_are h cfg (pa[i := v]) g'"
proof -
  have "\<not> addr_locked g i" using g i by (auto simp: entries_are_def addr_locked_def PMP_COUNT_def)
  from write_pmpaddr_run [OF i(1) this]
  have "write_pmpaddr i v g = Return () (g\<lparr>pmpaddr_csr := pa[i := v]\<rparr>)"
    using g by (simp add: entries_are_def)
  moreover have "entries_are h cfg (pa[i := v]) (g\<lparr>pmpaddr_csr := pa[i := v]\<rparr>)"
    using g pmp_frame(2) unfolding entries_are_def by auto
  ultimately show ?thesis by blast
qed

lemma write_cfg:
  assumes g: "entries_are h cfg pa g" and i: "i < 16" "\<not> locked (cfg i)"
  shows "\<exists>g'. set_pmpcfg i c g = Return () g' \<and> entries_are h (cfg(i := c)) pa g'"
proof -
  have "\<not> locked (entry_cfg g i)" using g i by (simp add: entries_are_def)
  from set_pmpcfg_run [OF i(1) this, of c] obtain d0 d2 where
    run: "set_pmpcfg i c g = Return () (g\<lparr>pmpcfg0_csr := d0, pmpcfg2_csr := d2\<rparr>)"
    "\<forall>j<16. entry_cfg (g\<lparr>pmpcfg0_csr := d0, pmpcfg2_csr := d2\<rparr>) j = (if j = i then c else entry_cfg g j)"
    by blast
  have "entries_are h (cfg(i := c)) pa (g\<lparr>pmpcfg0_csr := d0, pmpcfg2_csr := d2\<rparr>)"
    using run(2) g pmp_frame(1) unfolding entries_are_def by auto
  with run(1) show ?thesis by blast
qed

lemma write_both:
  assumes g: "entries_are h cfg pa g" and i: "i < 16" "\<not> locked (cfg i)"
    "i + 1 < 16 \<longrightarrow> \<not> locked (cfg (i + 1))"
  shows "\<exists>g'. then_comp (write_pmpaddr i v) (set_pmpcfg i c) g = Return () g' \<and>
    entries_are h (cfg(i := c)) (pa[i := v]) g'"
proof -
  from write_entry [OF g i] obtain g1 where 1: "write_pmpaddr i v g = Return () g1"
    "entries_are h cfg (pa[i := v]) g1" by blast
  from write_cfg [OF 1(2) i(1,2)] obtain g2 where "set_pmpcfg i c g1 = Return () g2"
    "entries_are h (cfg(i := c)) (pa[i := v]) g2" by blast
  with 1(1) show ?thesis by (simp add: then_comp_def bind_comp_def)
qed

lemma configure_region_ok:
  assumes g: "entries_are h cfg pa g" and i: "i < 16" "\<not> locked (cfg i)"
    "i + 1 < 16 \<longrightarrow> \<not> locked (cfg (i + 1))"
    and r: "is_power_of_two (region_size r)" "8 \<le> region_size r"
      "region_base r AND (region_size r - 1) = 0"
  shows "\<exists>g'. configure_region i r g = Return True g' \<and>
    entries_are h (cfg(i := region_flags r OR A_NAPOT)) (pa[i := napot_addr r]) g'"
proof -
  from write_entry [OF g i] obtain g1 where 1: "write_pmpaddr i (napot_addr r) g = Return () g1"
    "entries_are h cfg (pa[i := napot_addr r]) g1" by blast
  from write_cfg [OF 1(2) i(1,2)] obtain g2 where 2:
    "set_pmpcfg i (region_flags r OR A_NAPOT) g1 = Return () g2"
    "entries_are h (cfg(i := region_flags r OR A_NAPOT)) (pa[i := napot_addr r]) g2" by blast
  show ?thesis
    using 1(1) 2 i(1) r
    by (auto simp: configure_region_def PMP_COUNT_def then_comp_def bind_comp_def ret_def
        simp flip: linorder_not_le)
qed

definition init_cfg :: "nat \<Rightarrow> u8" where
  "init_cfg = (\<lambda>_. 0)(1 := 0x8C, 2 := 0x8B, 3 := 0x9B)"

definition init_addr :: "linker_symbols \<Rightarrow> u64 list" where
  "init_addr L = (replicate 16 0)[0 := drop_bit 2 (sym_stext L), 1 := drop_bit 2 (sym_user_text_end L),
     2 := drop_bit 2 (sym_eheap L), 3 := napot_encode 0x10000000 0x1000]"

lemma init_entries_run:
  assumes "pmp_reset h" "sym_stext L \<noteq> 0"
  shows "\<exists>g. block (clear_all #
      map (\<lambda>(i, region). init_entry i region) (enumerate 0 (kernel_entry_regions L))) h = Return () g \<and>
    entries_are h init_cfg (init_addr L) g"
proof -
  let ?g = "h\<lparr>pmpcfg0_csr := 0, pmpcfg2_csr := 0, pmpaddr_csr := replicate 16 0\<rparr>"
  let ?z = "\<lambda>_::nat. 0::u8"
  have g: "entries_are h ?z (replicate 16 0) ?g"
    unfolding entries_are_def by (auto simp: entry_cfg_def byte_of_def)
  let ?p0 = "(replicate 16 0)[0 := drop_bit 2 (sym_stext L)]"
  let ?p1 = "?p0[1 := drop_bit 2 (sym_user_text_end L)]"
  let ?p2 = "?p1[2 := drop_bit 2 (sym_eheap L)]"
  from write_entry [OF g, of 0 "drop_bit 2 (sym_stext L)"] obtain g0 where
    0: "write_pmpaddr 0 (drop_bit 2 (sym_stext L)) ?g = Return () g0" "entries_are h ?z ?p0 g0" by auto
  from write_both [OF 0(2), of 1 "drop_bit 2 (sym_user_text_end L)" "0x8C"] obtain g1 where
    1: "then_comp (write_pmpaddr 1 (drop_bit 2 (sym_user_text_end L))) (set_pmpcfg 1 0x8C) g0 = Return () g1"
      "entries_are h (?z(1 := 0x8C)) ?p1 g1" by auto
  from write_both [OF 1(2), of 2 "drop_bit 2 (sym_eheap L)" "0x8B"] obtain g2 where
    2: "then_comp (write_pmpaddr 2 (drop_bit 2 (sym_eheap L))) (set_pmpcfg 2 0x8B) g1 = Return () g2"
      "entries_are h (?z(1 := 0x8C, 2 := 0x8B)) ?p2 g2" by auto
  let ?r = "PmpRegion_new 0x10000000 0x1000 0x83"
  have "is_power_of_two (0x1000 :: u64)" by (simp add: is_power_of_two_def)
  with configure_region_ok [OF 2(2), of 3 ?r] obtain g3 where
    3: "configure_region 3 ?r g2 = Return True g3" "entries_are h init_cfg (init_addr L) g3"
    by (auto simp: PmpRegion_new_def init_cfg_def init_addr_def napot_addr_def napot_encode_def
        address_modes)
  have e0: "init_entry 0 (PmpRegion_new (sym_stext L) 0 A_OFF) = write_pmpaddr 0 (drop_bit 2 (sym_stext L))"
    using assms(2) by (simp add: init_entry_def PmpRegion_new_def word_neq_0_conv address_modes)
  have e1: "init_entry 1 (PmpRegion_new (sym_user_text_end L) 0 0x8C) =
      then_comp (write_pmpaddr 1 (drop_bit 2 (sym_user_text_end L))) (set_pmpcfg 1 0x8C)"
    by (simp add: init_entry_def PmpRegion_new_def address_modes)
  have e2: "init_entry 2 (PmpRegion_new (sym_eheap L) 0 0x8B) =
      then_comp (write_pmpaddr 2 (drop_bit 2 (sym_eheap L))) (set_pmpcfg 2 0x8B)"
    by (simp add: init_entry_def PmpRegion_new_def address_modes)
  have e3: "init_entry 3 ?r = then_comp (configure_region 3 ?r) skip"
    by (simp add: init_entry_def PmpRegion_new_def address_modes)
  have regions: "map (\<lambda>(i, region). init_entry i region) (enumerate 0 (kernel_entry_regions L)) =
      [write_pmpaddr 0 (drop_bit 2 (sym_stext L)),
       then_comp (write_pmpaddr 1 (drop_bit 2 (sym_user_text_end L))) (set_pmpcfg 1 0x8C),
       then_comp (write_pmpaddr 2 (drop_bit 2 (sym_eheap L))) (set_pmpcfg 2 0x8B),
       then_comp (configure_region 3 ?r) skip]"
    by (simp add: kernel_entry_regions_def kernel_flags e0 e1 [simplified] e2 e3
        numeral_2_eq_2 [symmetric])
  have "block (clear_all #
      map (\<lambda>(i, region). init_entry i region) (enumerate 0 (kernel_entry_regions L))) h = Return () g3"
    unfolding regions using clear_all_run [OF assms(1)] 0(1) 1(1) 2(1) 3(1)
    by (simp add: then_comp_def bind_comp_def skip_run)
  with 3(2) show ?thesis by blast
qed

lemma entries_are_kernel:
  assumes "entries_are h init_cfg (init_addr L) g" "console_step g g'"
  shows "kernel_entries L g'"
proof -
  have "entry_cfg g' i = init_cfg i" if "i < 16" for i
    using assms(1) console_stepD(8,9) [OF assms(2)] that by (auto simp: entries_are_def entry_cfg_def)
  moreover have "entry_addr g' i = init_addr L ! i" for i
    using assms(1) console_stepD(10) [OF assms(2)] by (auto simp: entries_are_def entry_addr_def)
  ultimately show ?thesis
    using assms(1) console_stepD(10) [OF assms(2)]
    by (simp add: kernel_entries_def kernel_flags init_cfg_def init_addr_def entries_are_def)
qed


section \<open>Protection\<close>

definition task_entries_unlocked :: "'a hart_scheme \<Rightarrow> bool" where
  "task_entries_unlocked h \<longleftrightarrow> (\<forall>i\<in>{4..<16}. \<not> locked (entry_cfg h i))"

lemma linker_dvd:
  assumes "linker_ok L"
  shows "4 dvd unat (sym_stext L)" "4 dvd unat (sym_user_text_end L)" "4 dvd unat (sym_eheap L)"
    "sym_stext L \<le> sym_user_text_end L" "sym_user_text_end L \<le> sym_eheap L" "sym_stext L = 0x80000000"
proof -
  have dvd: "4 dvd n" if "n mod 4096 = 0" for n :: nat
    using that by (auto intro: dvd_trans [of 4 4096])
  show "4 dvd unat (sym_stext L)" using assms by (simp add: linker_ok_def)
  show "4 dvd unat (sym_user_text_end L)" using assms by (intro dvd) (simp add: linker_ok_def)
  have "4 dvd unat (sym_sheap L)" using assms by (intro dvd) (simp add: linker_ok_def)
  then show "4 dvd unat (sym_eheap L)" using assms by (simp add: linker_ok_def)
  show "sym_stext L \<le> sym_user_text_end L" "sym_user_text_end L \<le> sym_eheap L" "sym_stext L = 0x80000000"
    using assms unfolding linker_ok_def word_le_nat_alt by linarith+
qed

lemma kernel_matches:
  assumes L: "linker_ok L" and h: "kernel_entries L h"
  shows "pmp_match (entry_cfg h) (entry_addr h) 0 a = False"
    and "pmp_match (entry_cfg h) (entry_addr h) 1 a \<longleftrightarrow> sym_stext L \<le> a \<and> a < sym_user_text_end L"
    and "pmp_match (entry_cfg h) (entry_addr h) 2 a \<longleftrightarrow> sym_user_text_end L \<le> a \<and> a < sym_eheap L"
    and "pmp_match (entry_cfg h) (entry_addr h) 3 a \<longleftrightarrow> 0x10000000 \<le> a \<and> a < 0x10001000"
proof -
  note h = h [unfolded kernel_entries_def kernel_flags]
  note d = linker_dvd [OF L]
  show "pmp_match (entry_cfg h) (entry_addr h) 0 a = False"
    using h by (simp add: pmp_match_def)
  show "pmp_match (entry_cfg h) (entry_addr h) 1 a \<longleftrightarrow> sym_stext L \<le> a \<and> a < sym_user_text_end L"
    using h by (intro pmp_match_tor) (simp_all add: d)
  show "pmp_match (entry_cfg h) (entry_addr h) 2 a \<longleftrightarrow> sym_user_text_end L \<le> a \<and> a < sym_eheap L"
    using h by (intro pmp_match_tor) (simp_all add: d)
  have "pmp_match (entry_cfg h) (entry_addr h) 3 a \<longleftrightarrow>
      unat (0x10000000 :: u64) \<le> unat a \<and> unat a < unat (0x10000000 :: u64) + 2 ^ 12"
    using h by (intro pmp_match_napot) (simp_all add: take_bit_eq_mod)
  then show "pmp_match (entry_cfg h) (entry_addr h) 3 a \<longleftrightarrow> 0x10000000 \<le> a \<and> a < 0x10001000"
    by (simp add: word_le_nat_alt word_less_nat_alt)
qed

definition in_text :: "linker_symbols \<Rightarrow> u64 \<Rightarrow> bool" where
  "in_text L a \<longleftrightarrow> sym_stext L \<le> a \<and> a < sym_user_text_end L"

definition in_data :: "linker_symbols \<Rightarrow> u64 \<Rightarrow> bool" where
  "in_data L a \<longleftrightarrow> sym_user_text_end L \<le> a \<and> a < sym_eheap L"

definition in_uart :: "u64 \<Rightarrow> bool" where
  "in_uart a \<longleftrightarrow> 0x10000000 \<le> a \<and> a < 0x10001000"

lemma below_4: "(\<forall>j < Suc 0. P j) = P 0" "(\<forall>j < (2::nat). P j) = (P 0 \<and> P 1)"
    "(\<forall>j < (3::nat). P j) = (P 0 \<and> P 1 \<and> P 2)"
  by (auto simp: less_Suc_eq numeral_2_eq_2 numeral_3_eq_3)

lemma kernel_decides:
  assumes L: "linker_ok L" and h: "kernel_entries L h"
  shows "in_text L a \<Longrightarrow> hart_allows h priv acc a \<longleftrightarrow> acc = AccExec"
    and "in_data L a \<Longrightarrow> hart_allows h priv acc a \<longleftrightarrow> acc \<noteq> AccExec"
    and "in_uart a \<Longrightarrow> hart_allows h priv acc a \<longleftrightarrow> acc \<noteq> AccExec"
proof -
  note m = kernel_matches [OF L h]
  note cfg = h [unfolded kernel_entries_def kernel_flags]
  note d = linker_dvd(4-6) [OF L]
  show "hart_allows h priv acc a \<longleftrightarrow> acc = AccExec" if "in_text L a"
    using isa.first_match [of 1 "entry_cfg h" "entry_addr h" a priv acc] that m cfg
    by (simp add: hart_allows_def in_text_def PMP_COUNT_def below_4)
  show "hart_allows h priv acc a \<longleftrightarrow> acc \<noteq> AccExec" if "in_data L a"
  proof -
    have "\<not> in_text L a" using that by (auto simp: in_data_def in_text_def)
    with isa.first_match [of 2 "entry_cfg h" "entry_addr h" a priv acc] that m cfg show ?thesis
      by (simp add: hart_allows_def in_text_def in_data_def PMP_COUNT_def below_4)
  qed
  show "hart_allows h priv acc a \<longleftrightarrow> acc \<noteq> AccExec" if "in_uart a"
  proof -
    have "\<not> sym_stext L \<le> a" "\<not> sym_user_text_end L \<le> a"
      using that d by (auto simp: in_uart_def word_le_nat_alt word_less_nat_alt)
    with isa.first_match [of 3 "entry_cfg h" "entry_addr h" a priv acc] that m cfg show ?thesis
      by (simp add: hart_allows_def in_uart_def PMP_COUNT_def below_4)
  qed
qed

text \<open>Everywhere else the twelve switchable entries decide.\<close>

definition task_grants :: "PmpRegion list \<Rightarrow> nat \<Rightarrow> access \<Rightarrow> u64 \<Rightarrow> bool" where
  "task_grants regions i acc a \<longleftrightarrow>
     pmp_match (task_cfg regions) (task_addr regions) i a \<and> permits (task_cfg regions i) acc"

definition kernel_locked :: "linker_symbols \<Rightarrow> 'a hart_scheme \<Rightarrow> bool" where
  "kernel_locked L h \<longleftrightarrow>
     frozen_base 0 (drop_bit 2 (sym_stext L)) h \<and>
     frozen_entry 1 (flag_X OR flag_L OR A_TOR) (drop_bit 2 (sym_user_text_end L)) h \<and>
     frozen_entry 2 (RW OR flag_L OR A_TOR) (drop_bit 2 (sym_eheap L)) h \<and>
     frozen_entry 3 (RW OR flag_L OR A_NAPOT) (napot_encode 0x10000000 0x1000) h"

lemma kernel_entries_locked:
  "kernel_entries L h \<longleftrightarrow> kernel_locked L h \<and> entry_cfg h 0 = 0"
  by (auto simp: kernel_entries_def kernel_locked_def frozen_base_def frozen_entry_def kernel_flags
      PMP_COUNT_def)

lemma keeps_conj: "keeps P m \<Longrightarrow> keeps Q m \<Longrightarrow> keeps (\<lambda>h. P h \<and> Q h) m"
  unfolding keeps_def by blast

interpretation kernel: pmp_invariant "kernel_locked L" for L
proof
  show "keeps (kernel_locked L) (write_pmpcfg0 v)" for v
    unfolding kernel_locked_def by (intro keeps_conj keeps_intros)
  show "keeps (kernel_locked L) (write_pmpcfg2 v)" for v
    unfolding kernel_locked_def by (intro keeps_conj keeps_intros)
  show "keeps (kernel_locked L) (write_pmpaddr i v)" for i v
    unfolding kernel_locked_def by (intro keeps_conj keeps_intros)
  have "pmp_only (kernel_locked L)"
    using pmp_only_frozen unfolding kernel_locked_def pmp_only_def by blast
  then show "keeps (kernel_locked L) (puts s)" for s by (rule keeps_console [OF _ console_puts])
qed


section \<open>Task regions\<close>

definition region_ok :: "PmpRegion \<Rightarrow> bool" where
  "region_ok r \<longleftrightarrow> \<not> locked (region_flags r) \<and> (region_size r = 0 \<or>
     is_power_of_two (region_size r) \<and> 8 \<le> region_size r \<and>
     region_base r AND (region_size r - 1) = 0)"

definition in_region :: "PmpRegion \<Rightarrow> u64 \<Rightarrow> bool" where
  "in_region r a \<longleftrightarrow> region_size r \<noteq> 0 \<and> unat (region_base r) \<le> unat a \<and>
     unat a < unat (region_base r) + unat (region_size r)"

lemma region_at_ok: "list_all region_ok regions \<Longrightarrow> region_ok (region_at regions i)"
  by (auto simp: region_at_def list_all_length region_ok_def PmpRegion_new_def)

lemma addr_mode_napot: "addr_mode (c OR A_NAPOT) = 3"
proof -
  have "(x OR 3) AND 3 = 3" for x :: u8 by (rule bit_word_eqI) (auto simp: bit_or_iff bit_and_iff)
  then show ?thesis by (simp add: addr_mode_def address_modes drop_bit_or)
qed

lemma locked_or_napot: "locked (c OR A_NAPOT) = locked c"
  by (simp add: locked_def address_modes bit_or_iff bit_iff_odd_drop_bit [of "0x18"])

lemma permits_or_napot: "permits (c OR A_NAPOT) acc = permits c acc"
  by (cases acc)
    (simp_all add: permits_def address_modes bit_or_iff bit_iff_odd_drop_bit [of "0x18"])

lemma aligned_take_bit:
  fixes b :: u64
  assumes "k < 64" "b AND (2 ^ k - 1) = 0"
  shows "take_bit k b = 0"
  using assms by (simp add: take_bit_eq_mask mask_eq_decr_exp)

lemma task_match:
  assumes "region_ok (region_at regions i)" "i \<noteq> 0"
    and "cfg i = task_cfg regions i" "pa i = task_addr regions i"
  shows "pmp_match cfg pa i a \<longleftrightarrow> in_region (region_at regions i) a"
proof (cases "region_size (region_at regions i) = 0")
  case True
  then show ?thesis
    using assms(3) by (simp add: pmp_match_def task_cfg_def in_region_def)
next
  case False
  let ?r = "region_at regions i"
  from False assms(1) have r: "is_power_of_two (region_size ?r)" "8 \<le> region_size ?r"
    "region_base ?r AND (region_size ?r - 1) = 0" by (auto simp: region_ok_def)
  from r(1) obtain k where k: "k < 64" "region_size ?r = 2 ^ k" by (auto simp: is_power_of_two_iff)
  have "(2 ^ 3 :: nat) \<le> 2 ^ k" using r(2) k by (simp add: word_le_nat_alt unat_pow2)
  then have "3 \<le> k" by (simp only: power_increasing_iff)
  moreover have "take_bit k (region_base ?r) = 0"
    using r(3) k by (intro aligned_take_bit) simp_all
  ultimately show ?thesis
    using assms(3,4) False k
    by (subst pmp_match_napot [of k "region_base ?r"])
      (simp_all add: task_cfg_def task_addr_def addr_mode_napot napot_addr_def napot_encode_def
        in_region_def unat_pow2)
qed

lemma load_task_config_entries:
  assumes "length (pmpaddr_csr h) = 16" "task_entries_unlocked h"
  obtains c0 c2 pa h' where "load_task_config regions h = Return () h'"
    "h' = h\<lparr>pmpcfg0_csr := c0, pmpcfg2_csr := c2, pmpaddr_csr := pa\<rparr>" "length pa = 16"
    "\<forall>i<16. entry_cfg h' i = (if i < 4 then entry_cfg h i else task_cfg regions i)"
    "\<forall>i<16. entry_addr h' i = (if i < 4 then entry_addr h i else task_addr regions i)"
proof -
  let ?pa = "write_addrs (task_addr regions) [4..<16] (pmpaddr_csr h)"
  from load_task_config_run [OF assms(1), of regions] assms(2) obtain c0 c2 where run:
    "load_task_config regions h =
      Return () (h\<lparr>pmpcfg0_csr := c0, pmpcfg2_csr := c2, pmpaddr_csr := ?pa\<rparr>)"
    "\<forall>j<8. byte_of c0 j = (if j < 4 then byte_of (pmpcfg0_csr h) j else task_cfg regions j)"
    "\<forall>j<8. byte_of c2 j = task_cfg regions (j + 8)"
    by (auto simp: task_entries_unlocked_def)
  show ?thesis
  proof (rule that [OF run(1) refl])
    show "\<forall>i<16. entry_cfg (h\<lparr>pmpcfg0_csr := c0, pmpcfg2_csr := c2, pmpaddr_csr := ?pa\<rparr>) i =
        (if i < 4 then entry_cfg h i else task_cfg regions i)"
      using run(2) spec [OF run(3), of "_ - 8"] by (auto simp: entry_cfg_def)
    have "?pa ! i = (if i < 4 then pmpaddr_csr h ! i else task_addr regions i)" if "i < 16" for i
      using that assms(1) by (subst nth_write_addrs) (auto simp del: upt_rec_numeral)
    then show "\<forall>i<16. entry_addr (h\<lparr>pmpcfg0_csr := c0, pmpcfg2_csr := c2, pmpaddr_csr := ?pa\<rparr>) i =
        (if i < 4 then entry_addr h i else task_addr regions i)"
      by (simp add: entry_addr_def del: upt_rec_numeral write_addrs_simps)
  qed (simp add: assms(1))
qed

lemma load_keeps_kernel_entries:
  assumes "kernel_entries L h" "task_entries_unlocked h"
  shows "kernel_entries L (final_state (load_task_config regions h))"
proof -
  have "length (pmpaddr_csr h) = 16" using assms(1) by (simp add: kernel_entries_def)
  then have "entry_cfg (final_state (load_task_config regions h)) 0 = entry_cfg h 0"
    by (rule load_task_config_entries [OF _ assms(2), of regions]) simp
  with keepsD [OF kernel.keeps_load_task_config, of L h regions] assms(1) show ?thesis
    by (simp add: kernel_entries_locked)
qed

lemma find_upt_from:
  assumes "\<forall>i<m. \<not> P i" "m \<le> n"
  shows "find P [0..<n] = find P [m..<n]"
proof -
  have "[0..<n] = [0..<m] @ [m..<n]" 
    using assms(2) upt_add_eq_append [of 0 m "n - m"] by simp
  moreover have "find P (xs @ ys) = find P ys" if "\<forall>x\<in>set xs. \<not> P x" for xs ys :: "nat list"
    using that by (induction xs) auto
  ultimately show ?thesis using assms(1) by simp
qed


section \<open>Properties\<close>

lemma emits_returned: "emits m bs \<Longrightarrow> returned (m h) \<longleftrightarrow> length bs \<le> tx_budget h"
  by (cases "length bs \<le> tx_budget h") (auto elim: emitsD [of m bs h] emits_HangD [of m bs h])

lemma reset_hart_pmp: "pmp_reset (reset_hart vs)"
  by (auto simp: pmp_reset_def reset_hart_def entry_cfg_def byte_of_def)

text \<open>
  C32: On a hart with no locked entry, \<open>pmp::init\<close> leaves entry 0 off with the start of the text
  as its address, entry 1 a locked execute-only range up to the end of the user text, entry 2 a
  locked read-write range up to the end of the heap, entry 3 a locked read-write page at the
  UART, and entries 4 to 15 off. It does so even when the transmitter stalls; it returns exactly
  when the transmitter accepts the final message.
\<close>

theorem pmp_init_establishes:
  fixes h :: "'a hart_scheme"
  assumes "linker_ok L" and "pmp_reset h"
  shows "kernel_entries L (final_state (pmp_init L h)) \<and>
    (\<forall>i\<in>{4..<16}. entry_cfg (final_state (pmp_init L h)) i = 0) \<and>
    (returned (pmp_init L h) \<longleftrightarrow>
       length (crlf (bytes (''[pmp] Kernel entries locked'' @ newline))) \<le> tx_budget h)"
proof -
  let ?msg = "''[pmp] Kernel entries locked'' @ newline"
  have "sym_stext L \<noteq> 0" using assms(1) by (simp add: linker_ok_def)
  from init_entries_run [OF assms(2) this] obtain g where
    g: "block (clear_all #
      map (\<lambda>(i, region). init_entry i region) (enumerate 0 (kernel_entry_regions L))) h = Return () g"
    "entries_are h init_cfg (init_addr L) g" by blast
  have run: "pmp_init L h = block [puts ?msg] g"
    using g(1) unfolding pmp_init_def append_Cons [symmetric] block_append by (rule then_run)
  have out: "emits (block [puts ?msg] :: ('a hart_scheme, unit) comp) (crlf (bytes ?msg))"
    using emits_then [OF emits_puts [of ?msg] emits_skip] by simp
  have step: "console_step g (final_state (pmp_init L h))"
    using emits_console_only [OF out] run by (simp add: console_only_def)
  have "entry_cfg (final_state (pmp_init L h)) i = init_cfg i" if "i < 16" for i
    using g(2) console_stepD(8,9) [OF step] that by (auto simp: entries_are_def entry_cfg_def)
  then have "\<forall>i\<in>{4..<16}. entry_cfg (final_state (pmp_init L h)) i = 0"
    by (auto simp: init_cfg_def)
  moreover have "g = h\<lparr>pmpcfg0_csr := pmpcfg0_csr g, pmpcfg2_csr := pmpcfg2_csr g,
      pmpaddr_csr := init_addr L\<rparr>"
    using g(2) unfolding entries_are_def by blast
  then have "uart_in g = uart_in (h\<lparr>pmpcfg0_csr := pmpcfg0_csr g, pmpcfg2_csr := pmpcfg2_csr g,
      pmpaddr_csr := init_addr L\<rparr>)"
    by (rule arg_cong)
  then have "tx_budget g = tx_budget h" by (simp add: tx_budget_def)
  then have "returned (pmp_init L h) \<longleftrightarrow> length (crlf (bytes ?msg)) \<le> tx_budget h"
    using emits_returned [OF out, of g] run by (simp only:)
  ultimately show ?thesis using entries_are_kernel [OF g(2) step] by blast
qed

theorem pmp_init_establishes_witness:
  "linker_ok linker_example \<and> pmp_reset (reset_hart []) \<and>
   kernel_entries linker_example (final_state (pmp_init linker_example (reset_hart [])))"
  using pmp_init_establishes [OF linker_example_ok reset_hart_pmp] linker_example_ok reset_hart_pmp
  by blast


lemma booted_locked: "kernel_entries L h \<Longrightarrow> kernel_locked L h"
  by (simp add: kernel_entries_locked)

text \<open>A hart whose registers are the ones \<open>pmp::init\<close> leaves.\<close>

definition booted_hart :: hart where
  "booted_hart = (reset_hart [])\<lparr>pmpcfg0_csr := 0x9B8B8C00, pmpaddr_csr := init_addr linker_example\<rparr>"

lemma booted_hart_entries:
  "kernel_entries linker_example booted_hart" "task_entries_unlocked booted_hart"
proof -
  have "\<forall>i\<in>set [4..<16]. entry_cfg booted_hart i = 0"
    by (simp add: entry_cfg_def booted_hart_def reset_hart_def byte_of_def)
  then show "task_entries_unlocked booted_hart" by (simp add: task_entries_unlocked_def del: upt_rec_numeral)
  show "kernel_entries linker_example booted_hart"
    by (simp add: kernel_entries_def booted_hart_def reset_hart_def kernel_flags entry_cfg_def
        entry_addr_def init_addr_def byte_of_def)
qed


text \<open>
  Loading a task's regions returns, programs entries 4 to 15 with exactly the encodings of
  the task's regions (off and address zero for an empty one), leaves entries 0 to 3 as they
  were, and changes nothing else of the hart.
\<close>

lemma load_task_config_installs:
  assumes "length (pmpaddr_csr h) = 16" and "task_entries_unlocked h"
  shows "\<exists>c0 c2 pa. let h' = h\<lparr>pmpcfg0_csr := c0, pmpcfg2_csr := c2, pmpaddr_csr := pa\<rparr> in
    load_task_config regions h = Return () h' \<and> length pa = 16 \<and>
    (\<forall>i<16. entry_cfg h' i = (if i < 4 then entry_cfg h i else task_cfg regions i)) \<and>
    (\<forall>i<16. entry_addr h' i = (if i < 4 then entry_addr h i else task_addr regions i))"
  unfolding Let_def by (rule load_task_config_entries [OF assms, of regions]) blast

lemma load_task_config_example:
  "\<exists>h'. load_task_config (replicate 4 (PmpRegion_new 0 0 0) @ [PmpRegion_new 0x80400000 0x4000 RW])
      booted_hart = Return () h' \<and>
    entry_cfg h' 4 = 0x1B \<and> entry_addr h' 4 = 0x201007FF \<and> entry_cfg h' 2 = 0x8B"
proof -
  let ?rs = "replicate 4 (PmpRegion_new 0 0 0) @ [PmpRegion_new 0x80400000 0x4000 RW]"
  have len: "length (pmpaddr_csr booted_hart) = 16" by (simp add: booted_hart_def init_addr_def)
  have "task_cfg ?rs 4 = 0x1B" "task_addr ?rs 4 = 0x201007FF" "entry_cfg booted_hart 2 = 0x8B"
    using booted_hart_entries(1)
    by (simp_all add: task_cfg_def task_addr_def region_at_def nth_append PmpRegion_new_def flag_defs
        napot_addr_def kernel_entries_def)
  moreover obtain h' where "load_task_config ?rs booted_hart = Return () h'"
    "\<forall>i<16. entry_cfg h' i = (if i < 4 then entry_cfg booted_hart i else task_cfg ?rs i)"
    "\<forall>i<16. entry_addr h' i = (if i < 4 then entry_addr booted_hart i else task_addr ?rs i)"
    using load_task_config_installs [OF len booted_hart_entries(2), of ?rs] unfolding Let_def by blast
  ultimately show ?thesis by simp
qed

text \<open>The first region of the task that contains the address decides for it.\<close>

definition task_permits :: "PmpRegion list \<Rightarrow> access \<Rightarrow> u64 \<Rightarrow> bool" where
  "task_permits regions acc a =
     (case find (\<lambda>i. in_region (region_at regions i) a) [4..<16] of
        None \<Rightarrow> False
      | Some i \<Rightarrow> permits (region_flags (region_at regions i)) acc)"

definition regions_loaded :: "PmpRegion list \<Rightarrow> 'a hart_scheme \<Rightarrow> bool" where
  "regions_loaded regions h \<longleftrightarrow> (\<forall>i\<in>{4..<16}.
     entry_cfg h i = task_cfg regions i \<and> entry_addr h i = task_addr regions i)"

lemma regions_loadedD:
  "regions_loaded regions h \<Longrightarrow> 4 \<le> i \<Longrightarrow> i < 16 \<Longrightarrow>
     entry_cfg h i = task_cfg regions i \<and> entry_addr h i = task_addr regions i"
  by (simp add: regions_loaded_def)

lemma find_task_entry:
  assumes loaded: "regions_loaded regions h" and regions: "list_all region_ok regions"
    and low: "\<forall>i<4. \<not> pmp_match (entry_cfg h) (entry_addr h) i a"
  shows "find (\<lambda>i. pmp_match (entry_cfg h) (entry_addr h) i a) [0..<PMP_COUNT] =
    find (\<lambda>i. in_region (region_at regions i) a) [4..<16]"
proof -
  have "pmp_match (entry_cfg h) (entry_addr h) i a = in_region (region_at regions i) a"
    if "i \<in> set [4..<16]" for i
    using that regions_loadedD [OF loaded, of i] regions
    by (intro task_match region_at_ok) (auto simp del: upt_rec_numeral)
  then have "find (\<lambda>i. pmp_match (entry_cfg h) (entry_addr h) i a) [4..<16] =
      find (\<lambda>i. in_region (region_at regions i) a) [4..<16]"
    by (rule find_cong [OF refl])
  moreover have "find (\<lambda>i. pmp_match (entry_cfg h) (entry_addr h) i a) [0..<16] =
      find (\<lambda>i. pmp_match (entry_cfg h) (entry_addr h) i a) [4..<16]"
    by (rule find_upt_from [OF low]) simp
  ultimately show ?thesis unfolding PMP_COUNT_def by (rule trans [rotated])
qed

lemma task_entry_flags:
  assumes loaded: "regions_loaded regions h" and regions: "list_all region_ok regions"
    and found: "find (\<lambda>i. in_region (region_at regions i) a) [4..<16] = Some i"
  shows "permits (entry_cfg h i) acc = permits (region_flags (region_at regions i)) acc"
    and "\<not> locked (entry_cfg h i)"
proof -
  from found have i: "4 \<le> i" "i < 16" "in_region (region_at regions i) a"
    by (auto simp: find_Some_iff simp del: upt_rec_numeral)
  then have "entry_cfg h i = region_flags (region_at regions i) OR A_NAPOT"
    using regions_loadedD [OF loaded] by (simp add: task_cfg_def in_region_def)
  moreover have "\<not> locked (region_flags (region_at regions i))"
    using region_at_ok [OF regions, of i] by (simp add: region_ok_def)
  ultimately show "permits (entry_cfg h i) acc = permits (region_flags (region_at regions i)) acc"
    "\<not> locked (entry_cfg h i)"
    by (simp_all add: permits_or_napot locked_or_napot)
qed

lemma access_table:
  assumes L: "linker_ok L" and k: "kernel_entries L h" and loaded: "regions_loaded regions h"
    and regions: "list_all region_ok regions"
  shows "hart_allows h priv acc a \<longleftrightarrow>
    (if in_text L a then acc = AccExec
     else if in_data L a \<or> in_uart a then acc \<noteq> AccExec
     else priv = M_mode \<or> task_permits regions acc a)"
proof (cases "in_text L a \<or> in_data L a \<or> in_uart a")
  case True
  moreover have "\<not> in_text L a" if "in_uart a"
    using that linker_dvd(6) [OF L]
    by (auto simp: in_uart_def in_text_def word_le_nat_alt word_less_nat_alt)
  moreover have "\<not> in_text L a" if "in_data L a" using that by (auto simp: in_data_def in_text_def)
  ultimately show ?thesis using kernel_decides [OF L k, of a priv acc] by auto
next
  case False
  have "\<not> pmp_match (entry_cfg h) (entry_addr h) i a" if "i < 4" for i
  proof -
    have "i = 0 \<or> i = 1 \<or> i = 2 \<or> i = 3" using that by arith
    then show ?thesis
      using False kernel_matches [OF L k] by (auto simp: in_text_def in_data_def in_uart_def)
  qed
  then have f: "find (\<lambda>i. pmp_match (entry_cfg h) (entry_addr h) i a) [0..<PMP_COUNT] =
      find (\<lambda>i. in_region (region_at regions i) a) [4..<16]"
    by (intro find_task_entry [OF loaded regions]) blast
  have "hart_allows h priv acc a \<longleftrightarrow> priv = M_mode \<or> task_permits regions acc a"
  proof (cases "find (\<lambda>i. in_region (region_at regions i) a) [4..<16]")
    case None
    then show ?thesis unfolding hart_allows_def pmp_allows_def f task_permits_def by simp
  next
    case (Some i)
    from task_entry_flags [OF loaded regions Some] Some show ?thesis
      unfolding hart_allows_def pmp_allows_def f task_permits_def by simp
  qed
  with False show ?thesis by simp
qed

lemma load_regions_loaded:
  assumes "kernel_entries L h" "task_entries_unlocked h"
  shows "regions_loaded regions (final_state (load_task_config regions h))"
proof -
  have "length (pmpaddr_csr h) = 16" using assms(1) by (simp add: kernel_entries_def)
  then show ?thesis
    by (rule load_task_config_entries [OF _ assms(2), of regions]) (simp add: regions_loaded_def)
qed

text \<open>
  C1: The protection a task runs under, address by address. With the kernel entries in place and
  a task's well-formed unlocked regions loaded, the image's text is execute-only and everything
  from the end of the text to the end of the heap and the UART page is read-write without
  execution, for both privilege modes; anywhere else the machine mode is unrestricted and a
  user-mode access is allowed exactly when the first region of the task that contains the
  address grants it.
\<close>

theorem memory_protection:
  assumes "linker_ok L" and h: "kernel_entries L h" "task_entries_unlocked h"
    and "list_all region_ok regions"
  shows "hart_allows (final_state (load_task_config regions h)) priv acc a \<longleftrightarrow>
    (if in_text L a then acc = AccExec
     else if in_data L a \<or> in_uart a then acc \<noteq> AccExec
     else priv = M_mode \<or> task_permits regions acc a)"
  using access_table [OF assms(1) load_keeps_kernel_entries [OF h] load_regions_loaded [OF h] assms(4)] .

lemma task_permits_nil: "\<not> task_permits [] acc a"
proof -
  have "find (\<lambda>i. in_region (region_at [] i) a) [4..<16] = None"
    by (simp add: find_None_iff in_region_def region_at_def PmpRegion_new_def del: upt_rec_numeral)
  then show ?thesis by (simp add: task_permits_def)
qed

theorem memory_protection_witness:
  "linker_ok linker_example \<and> kernel_entries linker_example booted_hart \<and>
   task_entries_unlocked booted_hart \<and>
   \<not> hart_allows (final_state (load_task_config [] booted_hart)) U_mode AccRead 0x40000000 \<and>
   \<not> hart_allows (final_state (load_task_config [] booted_hart)) U_mode AccWrite 0x80000000"
proof -
  have "in_text linker_example 0x80000000" "\<not> in_text linker_example 0x40000000"
    "\<not> in_data linker_example 0x40000000" "\<not> in_uart 0x40000000"
    by (simp_all add: in_text_def in_data_def in_uart_def linker_example_def)
  with linker_example_ok booted_hart_entries show ?thesis
    using memory_protection [OF linker_example_ok booted_hart_entries, of "[]"]
    by (simp add: task_permits_nil)
qed



end
