(* ===== verification/Scheduler.thy ===== *)
theory Scheduler
  imports Kernel_State Policy Protection
begin

text \<open>
  The scheduler, \<open>crates/kernel/src/sched/scheduler.rs\<close>, and the spawning of tasks,
  \<open>crates/kernel/src/sched/task/spec.rs\<close>.

  The body of a critical section that only works on the scheduler's data is a function on
  \<open>SchedulerState\<close>; an index that leaves the table is a panic. The trap frame is passed in and
  handed back. The selection policy is an argument of the critical section, so that what the
  scheduler needs of it is the contract \<open>task_selector\<close>; \<open>schedule\<close> uses the real policy.
\<close>

section \<open>Starting the scheduler\<close>

definition make_ready :: "Task option \<Rightarrow> Task option" where
  "make_ready slot = (case slot of
      None \<Rightarrow> None
    | Some task \<Rightarrow> Some (if task_state task = Created then task\<lparr>task_state := Ready\<rparr> else task))"

definition sched_init :: "('a kernel_scheme, unit) comp" where
  "sched_init = with_lock (scheduler_closure (\<lambda>st.
     ((), st\<lparr>tasks := fold (\<lambda>i ts. ts[i := make_ready (ts ! i)]) [0..<MAX_TASKS] (tasks st)\<rparr>)))"

section \<open>Switching tasks\<close>

text \<open>Step 1: save the context of the current task; a dead task stays dead.\<close>

definition save_task :: "TrapFrame \<Rightarrow> u64 \<Rightarrow> u64 \<Rightarrow> Task \<Rightarrow> Task" where
  "save_task frame me ms task = task\<lparr>
     task_context := (copy_gpr_fields frame (task_context task))\<lparr>mepc := me, mstatus := ms\<rparr>,
     task_state := (if task_state task = Running then Ready else task_state task)\<rparr>"

definition save_current :: "TrapFrame \<Rightarrow> u64 \<Rightarrow> u64 \<Rightarrow> SchedulerState \<Rightarrow> SchedulerState" where
  "save_current frame me ms st = (case current st of
      None \<Rightarrow> st
    | Some c \<Rightarrow> (case tasks st ! c of
          None \<Rightarrow> st
        | Some task \<Rightarrow> st\<lparr>tasks := (tasks st)[c := Some (save_task frame me ms task)]\<rparr>))"

definition is_ready :: "SchedulerState \<Rightarrow> nat \<Rightarrow> bool" where
  "is_ready st idx = (case tasks st ! idx of None \<Rightarrow> False | Some task \<Rightarrow> task_state task = Ready)"

text \<open>Step 3: mark the chosen task as running.\<close>

definition mark_running :: "nat \<Rightarrow> SchedulerState \<Rightarrow> SchedulerState" where
  "mark_running i st = st\<lparr>
     tasks := (case tasks st ! i of
         None \<Rightarrow> tasks st
       | Some task \<Rightarrow> (tasks st)[i := Some (task\<lparr>task_state := Running\<rparr>)]),
     current := Some i\<rparr>"

definition dispatch ::
  "(nat option \<Rightarrow> (nat \<Rightarrow> bool) \<Rightarrow> nat option) \<Rightarrow> TrapFrame \<Rightarrow> u64 \<Rightarrow> u64 \<Rightarrow> SchedulerState \<Rightarrow>
   (nat \<times> PmpRegion list \<times> TaskContext) option \<times> SchedulerState"
where
  "dispatch select frame me ms st =
     (let st1 = save_current frame me ms st in
      case select (current st) (is_ready st1) of
        None \<Rightarrow> (None, st1)
      | Some i \<Rightarrow>
          (let st2 = mark_running i st1 in
           (map_option (\<lambda>task. (i, cfg_regions (pmp_config task), task_context task)) (tasks st2 ! i),
            st2)))"

definition current_in_range :: "SchedulerState \<Rightarrow> bool" where
  "current_in_range st = (case current st of None \<Rightarrow> True | Some c \<Rightarrow> c < length (tasks st))"

definition schedule_locked ::
  "(nat option \<Rightarrow> (nat \<Rightarrow> bool) \<Rightarrow> nat option) \<Rightarrow> TrapFrame \<Rightarrow> u64 \<Rightarrow> u64 \<Rightarrow>
   ('a kernel_scheme, (nat \<times> PmpRegion list \<times> TaskContext) option) comp"
where
  "schedule_locked select frame me ms =
     bind_comp (gets SCHEDULER) (\<lambda>st.
     if current_in_range st then scheduler_closure (dispatch select frame me ms)
     else panic_at ''crates/kernel/src/sched/scheduler.rs'' 68 ''index out of bounds'')"

text \<open>Steps 4 to 6, outside the lock.\<close>

definition apply_switch ::
  "nat \<Rightarrow> PmpRegion list \<Rightarrow> TaskContext \<Rightarrow> TrapFrame \<Rightarrow> ('a kernel_scheme, TrapFrame) comp"
where
  "apply_switch i regs c frame =
     then_comp (puts ''[sched] switching to task '')
     (then_comp (put_dec (of_nat i))
     (then_comp (puts newline)
     (then_comp (load_task_config regs)
     (then_comp (mepc_write (mepc c))
     (then_comp (mstatus_write (mstatus c))
     (ret (copy_gpr_fields c frame)))))))"

definition schedule_with ::
  "(nat option \<Rightarrow> (nat \<Rightarrow> bool) \<Rightarrow> nat option) \<Rightarrow> TrapFrame \<Rightarrow> ('a kernel_scheme, TrapFrame) comp"
where
  "schedule_with select frame =
     bind_comp mepc_read (\<lambda>me.
     bind_comp mstatus_read (\<lambda>ms.
     bind_comp (with_lock (schedule_locked select frame me ms)) (\<lambda>target.
     case target of
       None \<Rightarrow> ret frame
     | Some (i, regs, c) \<Rightarrow> apply_switch i regs c frame)))"

definition schedule :: "TrapFrame \<Rightarrow> ('a kernel_scheme, TrapFrame) comp" where
  "schedule = schedule_with (select_next_ready MAX_TASKS)"

definition kill_locked :: "('a kernel_scheme, unit) comp" where
  "kill_locked =
     bind_comp (gets SCHEDULER) (\<lambda>st. case current st of
       None \<Rightarrow> skip
     | Some c \<Rightarrow>
         if \<not> c < length (tasks st)
         then panic_at ''crates/kernel/src/sched/scheduler.rs'' 175 ''index out of bounds''
         else (case tasks st ! c of
             None \<Rightarrow> skip
           | Some task \<Rightarrow> block [
               modify (set_SCHEDULER (st\<lparr>tasks := (tasks st)[c := Some (task\<lparr>task_state := Dead\<rparr>)]\<rparr>)),
               puts ''[sched] task killed: '',
               put_dec (of_nat c),
               puts newline]))"

definition kill_current :: "TrapFrame \<Rightarrow> ('a kernel_scheme, TrapFrame) comp" where
  "kill_current frame = then_comp (with_lock kill_locked) (schedule frame)"

section \<open>Creating tasks\<close>

definition copy_regions :: "PmpRegion list \<Rightarrow> PmpRegion list \<Rightarrow> PmpRegion list" where
  "copy_regions src dst = fold (\<lambda>(i, r) rs. rs[i := r]) (take 16 (enumerate 0 src)) dst"

definition first_free :: "SchedulerState \<Rightarrow> nat option" where
  "first_free st = find (\<lambda>idx. tasks st ! idx = None) [0..<MAX_TASKS]"

definition create_task :: "u64 \<Rightarrow> u64 \<Rightarrow> PmpRegion list \<Rightarrow> ('a kernel_scheme, TaskId) comp" where
  "create_task e st_top pmp_regions = with_lock (
     bind_comp (gets SCHEDULER) (\<lambda>st. case first_free st of
       Some idx \<Rightarrow>
         (let task = Task_new (TaskId (of_nat idx)) e st_top;
              task = task\<lparr>pmp_config :=
                \<lparr>cfg_regions = copy_regions pmp_regions (cfg_regions (pmp_config task))\<rparr>\<rparr>
          in then_comp (modify (set_SCHEDULER (st\<lparr>tasks := (tasks st)[idx := Some task]\<rparr>)))
               (ret (TaskId (of_nat idx))))
     | None \<Rightarrow> panic_at ''crates/kernel/src/sched/scheduler.rs'' 145 ''task table full''))"

definition create_task_mmode :: "u64 \<Rightarrow> u64 \<Rightarrow> ('a kernel_scheme, TaskId) comp" where
  "create_task_mmode e st_top = with_lock (
     bind_comp (gets SCHEDULER) (\<lambda>st. case first_free st of
       Some idx \<Rightarrow>
         (let task = Task_new (TaskId (of_nat idx)) e st_top;
              task = task\<lparr>task_context := TaskContext_new_mmode e st_top\<rparr>
          in then_comp (modify (set_SCHEDULER (st\<lparr>tasks := (tasks st)[idx := Some task]\<rparr>)))
               (ret (TaskId (of_nat idx))))
     | None \<Rightarrow> panic_at ''crates/kernel/src/sched/scheduler.rs'' 163 ''task table full''))"

section \<open>Spawning\<close>

text \<open>
  \<open>Global.allocate\<close> asks the global allocator and turns a null pointer into an error, which
  \<open>expect\<close> turns into a panic. Tasks are spawned before interrupts are enabled, so the
  allocation runs undisturbed.
\<close>

definition global_alloc :: "Layout \<Rightarrow> ('a kernel_scheme, usize) comp" where
  "global_alloc l =
     bind_comp (gets ALLOCATOR) (\<lambda>a. let (p, a') = alloc [] l a in
       then_comp (modify (\<lambda>k. k\<lparr>ALLOCATOR := a'\<rparr>)) (ret p))"

definition alloc_task_stack :: "('a kernel_scheme, u64 \<times> u64) comp" where
  "alloc_task_stack = (case Layout_from_size_align TASK_STACK_SIZE TASK_STACK_ALIGN of
      None \<Rightarrow> panic_at ''crates/kernel/src/sched/task/spec.rs'' 81 ''valid task stack layout''
    | Some layout \<Rightarrow>
        bind_comp (global_alloc layout) (\<lambda>p.
        if p = 0 then panic_at ''crates/kernel/src/sched/task/spec.rs'' 82 ''allocating stack''
        else ret (p, p + layout_size layout)))"

definition spawn :: "TaskSpec \<Rightarrow> ('a kernel_scheme, TaskId) comp" where
  "spawn spec =
     bind_comp alloc_task_stack (\<lambda>(bottom, st_top).
     case spec_mode spec of
       MMode \<Rightarrow> create_task_mmode (spec_entry spec) st_top
     | UMode base sz regs \<Rightarrow>
         bind_comp (user_pmp base sz regs bottom) (\<lambda>pmp.
         create_task (spec_entry spec) st_top (cfg_regions pmp)))"

end
