(* ===== verification/Scheduling.thy ===== *)
theory Scheduling
  imports Scheduler
begin

text \<open>
  What the scheduler guarantees: its table stays consistent, a switch never changes what any
  task will find in its registers, a dead task never runs again, and every live task runs
  within as many switches as there are slots. The lemmas about one critical section are proved
  for any selection policy that meets the contract \<open>task_selector\<close>.
\<close>

section \<open>The scheduler's invariant\<close>

definition task_ok :: "nat \<Rightarrow> Task \<Rightarrow> bool" where
  "task_ok i t \<longleftrightarrow> task_id t = TaskId (of_nat i) \<and>
     length (cfg_regions (pmp_config t)) = PMP_COUNT \<and> list_all region_ok (cfg_regions (pmp_config t))"

definition slot_ok :: "nat option \<Rightarrow> nat \<Rightarrow> Task option \<Rightarrow> bool" where
  "slot_ok cur i slot = (case slot of
      None \<Rightarrow> cur \<noteq> Some i
    | Some t \<Rightarrow> task_ok i t \<and> (task_state t = Running \<longrightarrow> cur = Some i))"

definition sched_ok :: "nat \<Rightarrow> SchedulerState \<Rightarrow> bool" where
  "sched_ok n st \<longleftrightarrow> length (tasks st) = n \<and> current_in_range st \<and>
     list_all (\<lambda>i. slot_ok (current st) i (tasks st ! i)) [0..<n]"

lemma sched_okD:
  assumes "sched_ok n st"
  shows "length (tasks st) = n" "current st = Some c \<Longrightarrow> c < n"
    "i < n \<Longrightarrow> slot_ok (current st) i (tasks st ! i)"
  using assms by (auto simp: sched_ok_def current_in_range_def list_all_iff)

lemma sched_okI:
  assumes "length (tasks st) = n" "\<And>c. current st = Some c \<Longrightarrow> c < n"
    "\<And>i. i < n \<Longrightarrow> slot_ok (current st) i (tasks st ! i)"
  shows "sched_ok n st"
  using assms by (auto simp: sched_ok_def current_in_range_def list_all_iff split: option.splits)

lemma current_task:
  assumes "sched_ok n st" "current st = Some c"
  obtains t where "c < n" "tasks st ! c = Some t" "task_ok c t"
  using sched_okD(2) [OF assms] sched_okD(3) [OF assms(1), of c] assms(2)
  by (auto simp: slot_ok_def split: option.splits)

lemma running_is_current:
  "sched_ok n st \<Longrightarrow> i < n \<Longrightarrow> tasks st ! i = Some t \<Longrightarrow> task_state t = Running \<Longrightarrow> current st = Some i"
  using sched_okD(3) by (fastforce simp: slot_ok_def)

text \<open>Saving the current task.\<close>

lemma task_ok_save [simp]: "task_ok i (save_task frame me ms t) = task_ok i t"
  by (simp add: task_ok_def save_task_def)

lemma task_ok_state [simp]: "task_ok i (t\<lparr>task_state := s\<rparr>) = task_ok i t"
  by (simp add: task_ok_def)

lemma save_task_state [simp]:
  "task_state (save_task frame me ms t) = (if task_state t = Running then Ready else task_state t)"
  by (simp add: save_task_def)

lemma current_save [simp]: "current (save_current frame me ms st) = current st"
  by (simp add: save_current_def split: option.splits)

lemma tasks_save:
  "sched_ok n st \<Longrightarrow> i < n \<Longrightarrow> tasks (save_current frame me ms st) ! i =
     (if current st = Some i then map_option (save_task frame me ms) (tasks st ! i) else tasks st ! i)"
  using sched_okD(1,2) [of n st]
  by (cases "current st"; cases "current st = Some i")
    (auto simp: save_current_def split: option.splits)

lemma length_save [simp]: "length (tasks (save_current frame me ms st)) = length (tasks st)"
  by (simp add: save_current_def split: option.splits)

definition none_running :: "SchedulerState \<Rightarrow> bool" where
  "none_running st \<longleftrightarrow> (\<forall>i < length (tasks st). \<forall>t. tasks st ! i = Some t \<longrightarrow> task_state t \<noteq> Running)"

lemma save_current_ok:
  assumes "sched_ok n st"
  shows "sched_ok n (save_current frame me ms st)" "none_running (save_current frame me ms st)"
proof -
  show "sched_ok n (save_current frame me ms st)"
  proof (rule sched_okI)
    fix i assume i: "i < n"
    show "slot_ok (current (save_current frame me ms st)) i (tasks (save_current frame me ms st) ! i)"
      using sched_okD(3) [OF assms i]
      by (auto simp: tasks_save [OF assms i] slot_ok_def split: option.splits)
  qed (use sched_okD [OF assms] in auto)
  show "none_running (save_current frame me ms st)"
    unfolding none_running_def length_save sched_okD(1) [OF assms]
  proof (intro allI impI)
    fix i t assume i: "i < n" and t: "tasks (save_current frame me ms st) ! i = Some t"
    show "task_state t \<noteq> Running"
      using t running_is_current [OF assms i]
      by (auto simp: tasks_save [OF assms i] split: if_splits)
  qed
qed

text \<open>Marking the chosen task.\<close>

lemma mark_running_simps [simp]:
  "current (mark_running i st) = Some i" "length (tasks (mark_running i st)) = length (tasks st)"
  by (auto simp: mark_running_def split: option.splits)

lemma tasks_mark_running:
  "i < length (tasks st) \<Longrightarrow> tasks (mark_running i st) ! j =
     (if i = j then map_option (\<lambda>t. t\<lparr>task_state := Running\<rparr>) (tasks st ! j) else tasks st ! j)"
  by (cases "i = j") (auto simp: mark_running_def split: option.splits)

lemma mark_running_ok:
  assumes "sched_ok n st" "none_running st" "i < n" "tasks st ! i \<noteq> None"
  shows "sched_ok n (mark_running i st)"
proof (rule sched_okI)
  fix j assume j: "j < n"
  have i: "i < length (tasks st)" using assms(1,3) sched_okD(1) by blast
  have "tasks st ! j = Some t \<Longrightarrow> task_state t \<noteq> Running" for t
    using assms(1,2) j sched_okD(1) by (fastforce simp: none_running_def)
  then show "slot_ok (current (mark_running i st)) j (tasks (mark_running i st) ! j)"
    using sched_okD(3) [OF assms(1) j] assms(4)
    by (auto simp: tasks_mark_running [OF i] slot_ok_def split: option.splits)
qed (use assms(3) sched_okD(1) [OF assms(1)] in auto)

section \<open>One switch\<close>

text \<open>
  What each task will find in the hart's registers when it next executes: the live registers
  for the current task, the saved ones for every other.
\<close>

definition saved_view :: "TaskContext \<Rightarrow> TrapFrame \<times> u64 \<times> u64" where
  "saved_view c = (frame_of c, mepc c, mstatus c)"

definition virtual_context ::
  "SchedulerState \<Rightarrow> TrapFrame \<times> u64 \<times> u64 \<Rightarrow> nat \<Rightarrow> (TrapFrame \<times> u64 \<times> u64) option"
where
  "virtual_context st live i =
     (if current st = Some i then Some live
      else map_option (\<lambda>t. saved_view (task_context t)) (tasks st ! i))"

text \<open>The registers after the switch.\<close>

definition resumed ::
  "(nat \<times> PmpRegion list \<times> TaskContext) option \<Rightarrow> TrapFrame \<times> u64 \<times> u64 \<Rightarrow> TrapFrame \<times> u64 \<times> u64"
where
  "resumed target live = (case target of None \<Rightarrow> live | Some (i, regs, c) \<Rightarrow> saved_view c)"

lemma saved_view_save: "saved_view (task_context (save_task frame me ms t)) = (frame, me, ms)"
  by (simp add: saved_view_def save_task_def)

text \<open>Ready or running: neither waiting to be started nor dead.\<close>

definition live_task :: "SchedulerState \<Rightarrow> nat \<Rightarrow> bool" where
  "live_task st i = (case tasks st ! i of
      None \<Rightarrow> False
    | Some t \<Rightarrow> task_state t = Ready \<or> task_state t = Running)"

text \<open>The scheduler's states after each of a series of switches.\<close>

primrec run_ticks ::
  "(nat option \<Rightarrow> (nat \<Rightarrow> bool) \<Rightarrow> nat option) \<Rightarrow> (TrapFrame \<times> u64 \<times> u64) list \<Rightarrow>
   SchedulerState \<Rightarrow> SchedulerState list"
where
  "run_ticks select [] st = []"
| "run_ticks select (l # ls) st =
     (let st' = snd (dispatch select (fst l) (fst (snd l)) (snd (snd l)) st)
      in st' # run_ticks select ls st')"

context task_selector
begin

lemma dispatch_cases:
  assumes "sched_ok slots st"
  obtains (none) "dispatch select frame me ms st = (None, save_current frame me ms st)"
      "\<forall>j < slots. \<not> is_ready (save_current frame me ms st) j"
    | (switch) i t where "i < slots" "is_ready (save_current frame me ms st) i"
      "tasks (save_current frame me ms st) ! i = Some t"
      "select (current st) (is_ready (save_current frame me ms st)) = Some i"
      "dispatch select frame me ms st =
         (Some (i, cfg_regions (pmp_config t), task_context t), mark_running i (save_current frame me ms st))"
proof (cases "select (current st) (is_ready (save_current frame me ms st))")
  case None
  then have "\<forall>j < slots. \<not> is_ready (save_current frame me ms st) j" by (simp add: select_none)
  then show ?thesis using None by (intro none) (simp_all add: dispatch_def Let_def)
next
  case (Some i)
  from select_ready [OF this] have i: "i < slots" "is_ready (save_current frame me ms st) i" by auto
  then obtain t where t: "tasks (save_current frame me ms st) ! i = Some t"
    by (auto simp: is_ready_def split: option.splits)
  have len: "i < length (tasks (save_current frame me ms st))"
    using i(1) sched_okD(1) [OF assms] by simp
  show ?thesis
    using switch [OF i t Some] Some t tasks_mark_running [OF len] by (simp add: dispatch_def Let_def)
qed

lemma dispatch_ok:
  assumes "sched_ok slots st"
  shows "sched_ok slots (snd (dispatch select frame me ms st))"
  using assms
proof (cases rule: dispatch_cases [of _ frame me ms])
  case none
  then show ?thesis using save_current_ok(1) [OF assms] by simp
next
  case (switch i t)
  then show ?thesis using mark_running_ok [OF save_current_ok [OF assms]] by simp
qed

lemma dispatch_virtual:
  assumes ok: "sched_ok slots st" and i: "i < slots" "tasks st ! i \<noteq> None"
  shows "virtual_context (snd (dispatch select frame me ms st))
      (resumed (fst (dispatch select frame me ms st)) (frame, me, ms)) i =
    virtual_context st (frame, me, ms) i"
  using ok
proof (cases rule: dispatch_cases [of _ frame me ms])
  case none
  then show ?thesis
    by (auto simp: virtual_context_def resumed_def tasks_save [OF ok i(1)])
next
  case (switch j t)
  have j: "j < length (tasks (save_current frame me ms st))"
    using switch(1) sched_okD(1) [OF ok] by simp
  show ?thesis
    using switch i
    by (auto simp: virtual_context_def resumed_def tasks_mark_running [OF j] tasks_save [OF ok]
        saved_view_save split: if_splits)
qed


text \<open>A dead task stays dead and is never chosen.\<close>

lemma dispatch_dead:
  assumes ok: "sched_ok slots st" and i: "i < slots" "tasks st ! i = Some t" "task_state t = Dead"
  shows "\<exists>t'. tasks (snd (dispatch select frame me ms st)) ! i = Some t' \<and> task_state t' = Dead"
    and "fst (dispatch select frame me ms st) = Some (j, regs, c) \<Longrightarrow> j \<noteq> i"
proof -
  have dead: "\<exists>t'. tasks (save_current frame me ms st) ! i = Some t' \<and> task_state t' = Dead"
    using i by (simp add: tasks_save [OF ok])
  show "\<exists>t'. tasks (snd (dispatch select frame me ms st)) ! i = Some t' \<and> task_state t' = Dead"
    using ok
  proof (cases rule: dispatch_cases [of _ frame me ms])
    case none
    then show ?thesis using dead by simp
  next
    case (switch j t')
    have "j < length (tasks (save_current frame me ms st))"
      using switch(1) sched_okD(1) [OF ok] by simp
    moreover have "j \<noteq> i" using switch(2,3) dead by (auto simp: is_ready_def)
    ultimately show ?thesis using switch dead by (simp add: tasks_mark_running)
  qed
  show "j \<noteq> i" if "fst (dispatch select frame me ms st) = Some (j, regs, c)"
    using ok
  proof (cases rule: dispatch_cases [of _ frame me ms])
    case none
    then show ?thesis using that by simp
  next
    case (switch j' t')
    then show ?thesis using that dead by (auto simp: is_ready_def)
  qed
qed

text \<open>A live task stays live, and it is chosen within as many switches as there are slots.\<close>

lemma ready_after_save:
  assumes "sched_ok slots st" "i < slots"
  shows "is_ready (save_current frame me ms st) i = live_task st i"
proof -
  have "current st = Some i" if "tasks st ! i = Some t" "task_state t = Running" for t
    using running_is_current [OF assms that] .
  then show ?thesis
    by (auto simp: is_ready_def live_task_def tasks_save [OF assms] split: option.splits)
qed

lemma dispatch_live:
  assumes ok: "sched_ok slots st" and i: "i < slots" "live_task st i"
  shows "live_task (snd (dispatch select frame me ms st)) i"
proof -
  have live: "live_task (save_current frame me ms st) i"
    using i(2) by (auto simp: live_task_def tasks_save [OF ok i(1)] split: option.splits)
  show ?thesis
    using ok
  proof (cases rule: dispatch_cases [of _ frame me ms])
    case none
    then show ?thesis using live by simp
  next
    case (switch j t)
    have "j < length (tasks (save_current frame me ms st))"
      using switch(1) sched_okD(1) [OF ok] by simp
    then show ?thesis
      using switch live by (auto simp: live_task_def tasks_mark_running split: option.splits)
  qed
qed

lemma ticks_within_rank:
  assumes "0 < j" "j < slots" "sched_ok slots st" "live_task st j" "rank (current st) j < length lives"
  shows "\<exists>st'\<in>set (run_ticks select lives st). current st' = Some j"
  using assms(3-5)
proof (induction lives arbitrary: st)
  case Nil
  then show ?case by simp
next
  case (Cons live lives)
  obtain frame me ms where live: "live = (frame, me, ms)" by (cases live)
  let ?st = "snd (dispatch select frame me ms st)"
  have ready: "is_ready (save_current frame me ms st) j"
    using ready_after_save [OF Cons.prems(1) assms(2)] Cons.prems(2) by simp
  from Cons.prems(1) show ?case
  proof (cases rule: dispatch_cases [of _ frame me ms])
    case none
    then show ?thesis using ready assms(2) by blast
  next
    case (switch i t)
    then have cur: "current ?st = Some i" by simp
    show ?thesis
    proof (cases "i = j")
      case True
      with cur live show ?thesis by (simp add: Let_def)
    next
      case False
      then have "rank (Some i) j < rank (current st) j"
        using rank_decreases [OF switch(4) assms(1,2) ready] by simp
      then have "rank (current ?st) j < length lives" using Cons.prems(3) cur by simp
      then have "\<exists>st'\<in>set (run_ticks select lives ?st). current st' = Some j"
        using Cons.IH [OF dispatch_ok [OF Cons.prems(1)] dispatch_live [OF Cons.prems(1) assms(2) Cons.prems(2)]]
        by blast
      with live show ?thesis by (simp add: Let_def)
    qed
  qed
qed

lemma ticks_fair:
  assumes "0 < j" "j < slots" "sched_ok slots st" "live_task st j" "slots \<le> length lives"
  shows "\<exists>st'\<in>set (run_ticks select lives st). current st' = Some j"
  using ticks_within_rank [OF assms(1-4)] rank_bound [OF assms(2), of "current st"] assms(5) by simp

end

end
