(* ===== verification/Switching.thy ===== *)
theory Switching
  imports Scheduling
begin

text \<open>
  The scheduler as the rest of the kernel sees it: what a call of \<open>schedule\<close>,
  \<open>kill_current\<close>, \<open>init\<close>, \<open>create_task\<close>, \<open>create_task_mmode\<close> and
  \<open>TaskSpec::spawn\<close> does to the kernel's state, console output and PMP registers included.
\<close>

section \<open>Running the scheduler\<close>

lemma entry_other [simp]:
  "entry_cfg (h\<lparr>uart_in := vs\<rparr>) i = entry_cfg h i" "entry_cfg (h\<lparr>mmio_trace := tr\<rparr>) i = entry_cfg h i"
  "entry_cfg (h\<lparr>mepc_csr := v\<rparr>) i = entry_cfg h i" "entry_cfg (h\<lparr>mstatus_csr := v\<rparr>) i = entry_cfg h i"
  "entry_addr (h\<lparr>uart_in := vs\<rparr>) i = entry_addr h i" "entry_addr (h\<lparr>mmio_trace := tr\<rparr>) i = entry_addr h i"
  "entry_addr (h\<lparr>mepc_csr := v\<rparr>) i = entry_addr h i" "entry_addr (h\<lparr>mstatus_csr := v\<rparr>) i = entry_addr h i"
  by (simp_all add: entry_cfg_def entry_addr_def)

lemma entry_statics [simp]:
  "entry_cfg (k\<lparr>SCHEDULER := st\<rparr>) i = entry_cfg k i" "entry_addr (k\<lparr>SCHEDULER := st\<rparr>) i = entry_addr k i"
  "tx_budget (k\<lparr>SCHEDULER := st\<rparr>) = tx_budget k"
  by (simp_all add: entry_cfg_def entry_addr_def tx_budget_def)

lemma task_entries_other [simp]:
  "task_entries_unlocked (h\<lparr>uart_in := vs\<rparr>) = task_entries_unlocked h"
  "task_entries_unlocked (h\<lparr>mmio_trace := tr\<rparr>) = task_entries_unlocked h"
  "task_entries_unlocked (k\<lparr>SCHEDULER := st\<rparr>) = task_entries_unlocked k"
  by (simp_all add: task_entries_unlocked_def)

lemma schedule_locked_run:
  assumes "current_in_range (SCHEDULER k)"
  shows "with_lock (schedule_locked select frame me ms) k =
    Return (fst (dispatch select frame me ms (SCHEDULER k)))
      (k\<lparr>SCHEDULER := snd (dispatch select frame me ms (SCHEDULER k))\<rparr>)"
proof -
  have "with_lock (schedule_locked select frame me ms) k =
      with_lock (scheduler_closure (dispatch select frame me ms)) k"
    using assms by (simp add: with_lock_eq schedule_locked_def bind_comp_def gets_def)
  then show ?thesis by (simp add: scheduler_closure_def cell.with_lock_on_cell)
qed

lemma schedule_with_run:
  assumes "current_in_range (SCHEDULER k)"
  shows "schedule_with select frame k =
    (let (target, st) = dispatch select frame (mepc_csr k) (mstatus_csr k) (SCHEDULER k) in
     case target of
       None \<Rightarrow> Return frame (k\<lparr>SCHEDULER := st\<rparr>)
     | Some (i, regs, c) \<Rightarrow> apply_switch i regs c frame (k\<lparr>SCHEDULER := st\<rparr>))"
  using schedule_locked_run [OF assms, of select frame "mepc_csr k" "mstatus_csr k"]
  by (auto simp: schedule_with_def bind_comp_def csr_read_runs ret_def split: option.splits prod.splits)

definition switch_message :: "nat \<Rightarrow> u8 list" where
  "switch_message i = bytes ''[sched] switching to task '' @ dec_bytes i @ [13, 10]"

lemma emits_switch_message:
  assumes "i < 4"
  shows "emits (then_comp (puts ''[sched] switching to task '')
     (then_comp (put_dec (of_nat i)) (puts newline))) (switch_message i)"
proof -
  have "unat (of_nat i :: u64) = i" using assms by (simp add: unsigned_of_nat take_bit_nat_eq_self_iff)
  moreover have "crlf (bytes newline) = [13, 10]" by (simp add: newline_def of_char_def char_of_def bit_Suc bit_0)
  moreover have "crlf (bytes ''[sched] switching to task '') = bytes ''[sched] switching to task ''"
    by (intro crlf_plain) simp
  ultimately show ?thesis
    unfolding switch_message_def
    using emits_then [OF emits_puts [of "''[sched] switching to task ''"]
        emits_then [OF emits_put_dec [of "of_nat i"] emits_puts [of newline]]]
    by simp
qed

lemma apply_switch_eq:
  "apply_switch i regs c frame =
     then_comp (then_comp (puts ''[sched] switching to task '')
       (then_comp (put_dec (of_nat i)) (puts newline)))
     (then_comp (load_task_config regs)
     (then_comp (mepc_write (mepc c))
     (then_comp (mstatus_write (mstatus c))
     (ret (copy_gpr_fields c frame)))))"
  by (simp add: apply_switch_def then_assoc)

lemma apply_switch_hang:
  assumes "i < 4" "\<not> length (switch_message i) \<le> tx_budget k"
  obtains k' where "apply_switch i regs c frame k = Hang k'" "console_step k k'"
proof -
  obtain k' where msg: "then_comp (puts ''[sched] switching to task '')
       (then_comp (put_dec (of_nat i)) (puts newline)) k = Hang k'" and "console_step k k'"
    by (rule emits_HangD [OF emits_switch_message [OF assms(1)] assms(2)])
  have "apply_switch i regs c frame k = Hang k'"
    unfolding apply_switch_eq using msg by (rule then_hang)
  then show ?thesis using \<open>console_step k k'\<close> by (rule that)
qed

lemma apply_switch_run:
  assumes "i < 4" "length (switch_message i) \<le> tx_budget k"
    and "length (pmpaddr_csr k) = 16" "task_entries_unlocked k"
  obtains k' vs tr c0 c2 pa where "apply_switch i regs c frame k = Return (frame_of c) k'"
    "k' = k\<lparr>uart_in := vs, mmio_trace := mmio_trace k @ tr, pmpcfg0_csr := c0, pmpcfg2_csr := c2,
       pmpaddr_csr := pa, mepc_csr := mepc c, mstatus_csr := mstatus c\<rparr>"
    "thr_bytes tr = switch_message i" "paced tr" "length pa = 16"
    "\<forall>j<16. entry_cfg k' j = (if j < 4 then entry_cfg k j else task_cfg regs j)"
    "\<forall>j<16. entry_addr k' j = (if j < 4 then entry_addr k j else task_addr regs j)"
proof -
  from emitsD [OF emits_switch_message [OF assms(1)] assms(2)] obtain vs tr where
    msg: "then_comp (puts ''[sched] switching to task '')
       (then_comp (put_dec (of_nat i)) (puts newline)) k =
       Return () (k\<lparr>uart_in := vs, mmio_trace := mmio_trace k @ tr\<rparr>)"
    and tr: "thr_bytes tr = switch_message i" "paced tr" by blast
  let ?k = "k\<lparr>uart_in := vs, mmio_trace := mmio_trace k @ tr\<rparr>"
  have k: "length (pmpaddr_csr ?k) = 16" "task_entries_unlocked ?k" using assms(3,4) by simp_all
  obtain c0 c2 pa k1 where load:
    "load_task_config regs ?k = Return () k1"
    "k1 = ?k\<lparr>pmpcfg0_csr := c0, pmpcfg2_csr := c2, pmpaddr_csr := pa\<rparr>" "length pa = 16"
    "\<forall>j<16. entry_cfg k1 j = (if j < 4 then entry_cfg ?k j else task_cfg regs j)"
    "\<forall>j<16. entry_addr k1 j = (if j < 4 then entry_addr ?k j else task_addr regs j)"
    by (rule load_task_config_entries [OF k, of regs])
  let ?k' = "k\<lparr>uart_in := vs, mmio_trace := mmio_trace k @ tr, pmpcfg0_csr := c0, pmpcfg2_csr := c2,
       pmpaddr_csr := pa, mepc_csr := mepc c, mstatus_csr := mstatus c\<rparr>"
  have run: "apply_switch i regs c frame k = Return (frame_of c) ?k'"
    unfolding apply_switch_eq using msg load(1,2)
    by (simp add: then_comp_def bind_comp_def csr_write_runs ret_def copy_to_frame)
  have "entry_cfg ?k' j = entry_cfg k1 j" "entry_addr ?k' j = entry_addr k1 j" for j
    by (simp_all add: load(2) entry_cfg_def entry_addr_def)
  then show ?thesis using load(4,5) by (intro that [OF run refl tr load(3)]) simp_all
qed

section \<open>The operations keep the table consistent\<close>

abbreviation sched_inv :: "'a kernel_scheme \<Rightarrow> bool" where
  "sched_inv k \<equiv> sched_ok MAX_TASKS (SCHEDULER k)"

lemma keeps_sched_frame:
  assumes "\<And>k. SCHEDULER (final_state (m k)) = SCHEDULER k"
  shows "keeps sched_inv m"
  using assms by (intro keepsI) simp

lemma console_SCHEDULER:
  assumes "console_only m"
  shows "SCHEDULER (final_state (m k)) = SCHEDULER k"
  using assms by (auto simp: console_only_def console_step_def dest: spec [of _ k])

lemma keeps_sched_console [keeps_intros]: "console_only m \<Longrightarrow> keeps sched_inv m"
  by (intro keeps_sched_frame console_SCHEDULER)

lemma SCHEDULER_write_pmpaddr: "SCHEDULER (final_state (write_pmpaddr i v k)) = SCHEDULER k"
  by (simp add: write_pmpaddr_def csrw_pmpaddr_def panic_at_def modify_def)

interpretation sched_pmp: pmp_invariant "\<lambda>k :: 'a kernel_scheme. SCHEDULER k = st" for st
proof
  show "keeps (\<lambda>k :: 'a kernel_scheme. SCHEDULER k = st) (write_pmpcfg0 v)" for v
    by (rule keepsI) (simp add: pmp_access_runs)
  show "keeps (\<lambda>k :: 'a kernel_scheme. SCHEDULER k = st) (write_pmpcfg2 v)" for v
    by (rule keepsI) (simp add: pmp_access_runs)
  show "keeps (\<lambda>k :: 'a kernel_scheme. SCHEDULER k = st) (write_pmpaddr i v)" for i v
    by (rule keepsI) (simp add: SCHEDULER_write_pmpaddr)
  show "keeps (\<lambda>k :: 'a kernel_scheme. SCHEDULER k = st) (puts s)" for s
    by (rule keepsI) (simp add: console_SCHEDULER [OF console_puts])
qed

text \<open>What leaves the table alone keeps the invariant.\<close>

definition keeps_table :: "('a kernel_scheme, 'b) comp \<Rightarrow> bool" where
  "keeps_table m \<longleftrightarrow> (\<forall>k. SCHEDULER (final_state (m k)) = SCHEDULER k)"

lemma keeps_tableD: "keeps_table m \<Longrightarrow> SCHEDULER (final_state (m k)) = SCHEDULER k"
  by (simp add: keeps_table_def)

lemma keeps_table_intros:
  "console_only m1 \<Longrightarrow> keeps_table m1"
  "keeps_table (load_task_config regs)"
  "keeps_table (mepc_write v)" "keeps_table (mstatus_write v)" "keeps_table (ret x)"
  by (simp_all add: keeps_table_def console_SCHEDULER csr_write_runs ret_def
      keepsD [OF sched_pmp.keeps_load_task_config])

lemma keeps_table_then: "keeps_table m \<Longrightarrow> keeps_table n \<Longrightarrow> keeps_table (then_comp m n)"
  unfolding keeps_table_def then_comp_def bind_comp_def by (auto split: outcome.splits)
     (metis final_state.simps)+

lemma keeps_table_switch: "keeps_table (apply_switch i regs c frame)"
  unfolding apply_switch_def by (intro keeps_table_then keeps_table_intros console_intros)

context task_selector
begin

lemma keeps_schedule_with:
  "keeps (\<lambda>k :: 'a kernel_scheme. sched_ok slots (SCHEDULER k)) (schedule_with select frame)"
proof (rule keepsI)
  fix k :: "'a kernel_scheme"
  assume ok: "sched_ok slots (SCHEDULER k)"
  then have "current_in_range (SCHEDULER k)" by (simp add: sched_ok_def)
  then show "sched_ok slots (SCHEDULER (final_state (schedule_with select frame k)))"
    using dispatch_ok [OF ok, of frame "mepc_csr k" "mstatus_csr k"]
    by (auto simp: schedule_with_run Let_def keeps_tableD [OF keeps_table_switch]
        split: prod.splits option.splits)
qed

end

lemma keeps_schedule [keeps_intros]: "keeps sched_inv (schedule frame)"
  unfolding schedule_def by (rule rr.keeps_schedule_with)

lemma SCHEDULER_mstatus_inv: "sched_inv (k\<lparr>mstatus_csr := v\<rparr>) = sched_inv k"
  by simp

lemma keeps_sched_lock: "keeps sched_inv m \<Longrightarrow> keeps sched_inv (with_lock m)"
  by (rule keeps_with_lock) simp_all

text \<open>Replacing a slot other than by a running task.\<close>

lemma sched_ok_update:
  assumes ok: "sched_ok n st" and i: "i < n" "task_ok i t"
    and "task_state t = Running \<Longrightarrow> current st = Some i"
  shows "sched_ok n (st\<lparr>tasks := (tasks st)[i := Some t]\<rparr>)"
proof (rule sched_okI)
  fix j assume j: "j < n"
  show "slot_ok (current (st\<lparr>tasks := (tasks st)[i := Some t]\<rparr>)) j
      (tasks (st\<lparr>tasks := (tasks st)[i := Some t]\<rparr>) ! j)"
    using assms sched_okD(1) [OF ok] sched_okD(3) [OF ok j]
    by (cases "i = j") (auto simp: slot_ok_def)
qed (use sched_okD [OF ok] in auto)

lemma keeps_kill_locked: "keeps sched_inv kill_locked"
proof (rule keepsI)
  fix k :: "'a kernel_scheme"
  assume ok: "sched_inv k"
  let ?st = "SCHEDULER k"
  show "sched_inv (final_state (kill_locked k))"
  proof (cases "current ?st")
    case None
    then show ?thesis using ok by (simp add: kill_locked_def bind_comp_def gets_def skip_def ret_def)
  next
    case (Some c)
    then obtain t where t: "c < MAX_TASKS" "tasks ?st ! c = Some t" "task_ok c t"
      by (rule current_task [OF ok])
    let ?st' = "?st\<lparr>tasks := (tasks ?st)[c := Some (t\<lparr>task_state := Dead\<rparr>)]\<rparr>"
    let ?out = "block [puts ''[sched] task killed: '', put_dec (of_nat c), puts newline] ::
      ('a kernel_scheme, unit) comp"
    have ok': "sched_inv (k\<lparr>SCHEDULER := ?st'\<rparr>)" using t sched_ok_update [OF ok t(1), of "t\<lparr>task_state := Dead\<rparr>"] by simp
    have "keeps sched_inv ?out"
      by (rule keeps_sched_console) (simp add: console_block console_puts console_put_dec del: block.simps)
    from keepsD [OF this ok'] have "sched_inv (final_state (?out (k\<lparr>SCHEDULER := ?st'\<rparr>)))" .
    moreover have "kill_locked k = ?out (k\<lparr>SCHEDULER := ?st'\<rparr>)"
      using Some t sched_okD(1) [OF ok]
      by (simp add: kill_locked_def bind_comp_def gets_def then_comp_def modify_def)
    ultimately show ?thesis by (simp only:)
  qed
qed

lemma keeps_kill_current [keeps_intros]: "keeps sched_inv (kill_current frame)"
  unfolding kill_current_def by (intro keeps_then keeps_sched_lock keeps_kill_locked keeps_schedule)

text \<open>Creating and starting tasks.\<close>

lemma first_free_Some: "first_free st = Some i \<Longrightarrow> i < MAX_TASKS \<and> tasks st ! i = None"
  by (auto simp: first_free_def find_Some_iff)

lemma copy_regions_eq:
  assumes "length src = 16" "length dst = 16"
  shows "copy_regions src dst = src"
proof -
  have "fold (\<lambda>(i, r) rs. rs[i := r]) (enumerate n xs) (pre @ ys) = pre @ xs"
    if "length pre = n" "length ys = length xs" for n xs and pre ys :: "PmpRegion list"
    using that
  proof (induction xs arbitrary: n pre ys)
    case Nil
    then show ?case by simp
  next
    case (Cons x xs)
    then obtain y ys' where "ys = y # ys'" "length ys' = length xs" by (cases ys) auto
    with Cons.prems Cons.IH [of "pre @ [x]" "Suc n" ys'] show ?case
      by (simp add: list_update_append)
  qed
  from this [of "[]" 0 dst src] assms show ?thesis by (simp add: copy_regions_def)
qed

lemma empty_config_ok:
  "length (cfg_regions PmpConfig_empty) = PMP_COUNT" "list_all region_ok (cfg_regions PmpConfig_empty)"
  by (simp_all add: PmpConfig_empty_def PMP_COUNT_def region_ok_def PmpRegion_new_def list_all_iff)

lemma keeps_new_slot:
  assumes "\<And>i. task_ok i (mk i)" "\<And>i. task_state (mk i) = Created"
  shows "keeps sched_inv (with_lock (bind_comp (gets SCHEDULER) (\<lambda>st. case first_free st of
       Some idx \<Rightarrow> then_comp (modify (set_SCHEDULER (st\<lparr>tasks := (tasks st)[idx := Some (mk idx)]\<rparr>)))
         (ret (f idx))
     | None \<Rightarrow> panic_at file line msg)) :: ('a kernel_scheme, 'r) comp)"
proof (rule keeps_sched_lock, rule keepsI)
  fix k :: "'a kernel_scheme"
  assume ok: "sched_inv k"
  show "sched_inv (final_state ((bind_comp (gets SCHEDULER) (\<lambda>st. case first_free st of
       Some idx \<Rightarrow> then_comp (modify (set_SCHEDULER (st\<lparr>tasks := (tasks st)[idx := Some (mk idx)]\<rparr>)))
         (ret (f idx))
     | None \<Rightarrow> panic_at file line msg)) k))"
    using ok sched_ok_update [OF ok _ assms(1)] first_free_Some [of "SCHEDULER k"] assms(2)
    by (auto simp: bind_comp_def then_comp_def gets_def modify_def ret_def panic_at_def
        split: option.splits)
qed

lemma keeps_create_task [keeps_intros]:
  assumes "length regs = 16" "list_all region_ok regs"
  shows "keeps sched_inv (create_task e st_top regs)"
  unfolding create_task_def Let_def
  by (rule keeps_new_slot)
    (use assms in \<open>simp_all add: task_ok_def Task_new_def copy_regions_eq empty_config_ok PMP_COUNT_def\<close>)

lemma keeps_create_task_mmode [keeps_intros]: "keeps sched_inv (create_task_mmode e st_top)"
  unfolding create_task_mmode_def Let_def
  by (rule keeps_new_slot) (simp_all add: task_ok_def Task_new_def empty_config_ok)

lemma make_ready_fold:
  assumes "length ts = n"
  shows "fold (\<lambda>i ts. ts[i := make_ready (ts ! i)]) [0..<n] ts = map make_ready ts"
proof -
  have "fold (\<lambda>i ts. ts[i := make_ready (ts ! i)]) [0..<m] ts = map make_ready (take m ts) @ drop m ts"
    if "m \<le> n" for m
    using that
  proof (induction m)
    case 0
    then show ?case by simp
  next
    case (Suc m)
    then have "m < length ts" using assms by simp
    with Suc show ?case
      by (simp add: nth_append list_update_append take_Suc_conv_app_nth Cons_nth_drop_Suc [symmetric])
  qed
  from this [of n] assms show ?thesis by simp
qed

lemma sched_init_run:
  assumes "sched_inv k"
  shows "sched_init k = Return () (k\<lparr>SCHEDULER := (SCHEDULER k)\<lparr>tasks := map make_ready (tasks (SCHEDULER k))\<rparr>\<rparr>)"
  using make_ready_fold [OF sched_okD(1) [OF assms]]
  by (simp add: sched_init_def scheduler_closure_def cell.with_lock_on_cell)

lemma keeps_sched_init [keeps_intros]: "keeps sched_inv sched_init"
proof (rule keepsI)
  fix k :: "'a kernel_scheme"
  assume ok: "sched_inv k"
  have "sched_ok MAX_TASKS ((SCHEDULER k)\<lparr>tasks := map make_ready (tasks (SCHEDULER k))\<rparr>)"
  proof (rule sched_okI)
    fix i assume i: "i < MAX_TASKS"
    show "slot_ok (current ((SCHEDULER k)\<lparr>tasks := map make_ready (tasks (SCHEDULER k))\<rparr>)) i
       (tasks ((SCHEDULER k)\<lparr>tasks := map make_ready (tasks (SCHEDULER k))\<rparr>) ! i)"
      using sched_okD(1) [OF ok] sched_okD(3) [OF ok i] i
      by (auto simp: slot_ok_def make_ready_def split: option.splits)
  qed (use sched_okD [OF ok] in auto)
  then show "sched_inv (final_state (sched_init k))" by (simp add: sched_init_run [OF ok])
qed

text \<open>The builder only accepts regions the driver can encode.\<close>

definition builder_ok :: "PmpConfigBuilder \<Rightarrow> bool" where
  "builder_ok b \<longleftrightarrow> length (b_regions b) = 16 \<and> list_all region_ok (b_regions b)"

lemma builder_ok_new: "builder_ok builder"
  by (simp add: builder_ok_def builder_def PMP_COUNT_def region_ok_def PmpRegion_new_def list_all_iff)

lemma list_all_update: "list_all P xs \<Longrightarrow> P x \<Longrightarrow> list_all P (xs[i := x])"
  by (auto simp: list_all_iff dest!: set_update_subset_insert [THEN subsetD])

lemma builder_region_ok:
  assumes "builder_region base sz fl b s = Return b' s'" "builder_ok b" "\<not> locked fl"
  shows "builder_ok b'" "s' = s"
proof -
  have c: "next_idx b < PMP_COUNT" "8 \<le> sz" "is_power_of_two sz" "base AND (sz - 1) = 0"
    and b': "b' = b\<lparr>b_regions := (b_regions b)[next_idx b := PmpRegion_new base sz fl],
      next_idx := next_idx b + 1\<rparr>" and s': "s' = s"
    using assms(1) by (auto simp: builder_region_def panic_at_def ret_def split: if_splits)
  have "region_ok (PmpRegion_new base sz fl)"
    using c assms(3) by (simp add: region_ok_def PmpRegion_new_def)
  then show "builder_ok b'" using assms(2) b' by (simp add: builder_ok_def list_all_update)
  show "s' = s" by (rule s')
qed

lemma unlocked_flags: "\<not> locked RX" "\<not> locked RW"
  by (simp_all add: locked_def flag_defs bit_iff_odd_drop_bit)

lemma add_mmio_ok:
  "add_mmio regs b s = Return b' s' \<Longrightarrow> builder_ok b \<Longrightarrow> builder_ok b' \<and> s' = s"
proof (induction regs arbitrary: b s)
  case Nil
  then show ?case by (simp add: ret_def)
next
  case (Cons r regs)
  from Cons.prems(1) obtain b1 s1 where
    1: "mmio_region (fst r) (snd r) b s = Return b1 s1" and 2: "add_mmio regs b1 s1 = Return b' s'"
    by (auto elim: bind_returnE)
  from builder_region_ok [OF 1 [unfolded mmio_region_def] Cons.prems(2) unlocked_flags(2)]
    Cons.IH [OF 2] show ?case by simp
qed

lemma user_pmp_ok:
  assumes "user_pmp base sz regs bottom s = Return cfg s'"
  shows "length (cfg_regions cfg) = 16 \<and> list_all region_ok (cfg_regions cfg) \<and> s' = s"
proof -
  from assms obtain b1 s1 b2 s2 b3 where
    1: "code_region base sz builder s = Return b1 s1" and
    2: "stack_region bottom TASK_STACK_SIZE b1 s1 = Return b2 s2" and
    3: "add_mmio regs b2 s2 = Return b3 s'" and cfg: "cfg = build b3"
    unfolding user_pmp_def by (auto elim!: bind_returnE simp: ret_def)
  from builder_region_ok [OF 1 [unfolded code_region_def] builder_ok_new unlocked_flags(1)]
  have b1: "builder_ok b1" "s1 = s" by auto
  from builder_region_ok [OF 2 [unfolded stack_region_def] b1(1) unlocked_flags(2)]
  have b2: "builder_ok b2" "s2 = s1" by auto
  from add_mmio_ok [OF 3 b2(1)] b1 b2 show ?thesis by (simp add: cfg build_def builder_ok_def)
qed

section \<open>Spawning\<close>

definition stack_layout :: Layout where
  "stack_layout = \<lparr>layout_size = 8192, layout_align = 8192\<rparr>"

lemma stack_layout_ok: "layout_ok stack_layout"
  "Layout_from_size_align TASK_STACK_SIZE TASK_STACK_ALIGN = Some stack_layout"
  by (simp_all add: layout_ok_def stack_layout_def Layout_from_size_align_def is_power_of_two_def
      TASK_STACK_SIZE_def TASK_STACK_ALIGN_def)

lemma alloc_task_stack_run:
  "alloc_task_stack k = (let (p, a) = alloc [] stack_layout (ALLOCATOR k) in
     if p = 0 then Panic \<lparr>panic_message = ''allocating stack'',
         panic_file = ''crates/kernel/src/sched/task/spec.rs'', panic_line = 82\<rparr> (k\<lparr>ALLOCATOR := a\<rparr>)
     else Return (p, p + 8192) (k\<lparr>ALLOCATOR := a\<rparr>))"
  by (auto simp: alloc_task_stack_def stack_layout_ok(2) global_alloc_def bind_comp_def then_comp_def
      gets_def modify_def ret_def panic_at_def stack_layout_def split: prod.splits)

lemma keeps_alloc_stack [keeps_intros]: "keeps sched_inv alloc_task_stack"
  by (rule keepsI) (simp add: alloc_task_stack_run split: prod.splits)

lemma keeps_builder [keeps_intros]: "keeps P (builder_region base sz fl b)"
  by (rule keepsI) (simp add: builder_region_def panic_at_def ret_def)

lemma keeps_add_mmio: "keeps P (add_mmio regs b)"
  by (induction regs arbitrary: b) (auto simp: mmio_region_def intro!: keeps_bind keeps_ret keeps_builder)

lemma keeps_user_pmp: "keeps P (user_pmp base sz regs bottom)"
  unfolding user_pmp_def code_region_def stack_region_def
  by (intro keeps_bind keeps_ret keeps_builder keeps_add_mmio)

lemma keeps_spawn [keeps_intros]: "keeps sched_inv (spawn spec)"
proof (rule keepsI)
  fix k :: "'a kernel_scheme"
  assume ok: "sched_inv k"
  show "sched_inv (final_state (spawn spec k))"
  proof (cases "alloc_task_stack k")
    case (Return r k1)
    obtain bottom st_top where r: "r = (bottom, st_top)" by (cases r)
    have ok1: "sched_inv k1" using keepsD [OF keeps_alloc_stack ok] Return by simp
    show ?thesis
    proof (cases "spec_mode spec")
      case MMode
      then show ?thesis
        using keepsD [OF keeps_create_task_mmode ok1] Return r by (simp add: spawn_def bind_comp_def)
    next
      case (UMode base sz regs)
      show ?thesis
      proof (cases "user_pmp base sz regs bottom k1")
        case (Return cfg k2)
        with user_pmp_ok [OF Return] keepsD [OF keeps_create_task ok1, of "cfg_regions cfg"]
        show ?thesis using UMode \<open>alloc_task_stack k = _\<close> r
          by (simp add: spawn_def bind_comp_def)
      next
        case (Panic i k2)
        with keepsD [OF keeps_user_pmp [of sched_inv base sz regs bottom] ok1] show ?thesis
          using UMode \<open>alloc_task_stack k = _\<close> r by (simp add: spawn_def bind_comp_def)
      next
        case (Hang k2)
        with keepsD [OF keeps_user_pmp [of sched_inv base sz regs bottom] ok1] show ?thesis
          using UMode \<open>alloc_task_stack k = _\<close> r by (simp add: spawn_def bind_comp_def)
      qed
    qed
  next
    case (Panic i k1)
    then show ?thesis using keepsD [OF keeps_alloc_stack ok] by (simp add: spawn_def bind_comp_def)
  next
    case (Hang k1)
    then show ?thesis using keepsD [OF keeps_alloc_stack ok] by (simp add: spawn_def bind_comp_def)
  qed
qed

section \<open>Properties\<close>

lemma apply_switch_result:
  assumes "apply_switch i regs c frame k = Return frame' k'"
  shows "frame' = frame_of c" "mepc_csr k' = mepc c" "mstatus_csr k' = mstatus c"
    "SCHEDULER k' = SCHEDULER k"
proof -
  from assms show "frame' = frame_of c" "mepc_csr k' = mepc c" "mstatus_csr k' = mstatus c"
    unfolding apply_switch_def
    by (auto elim!: then_returnE simp: csr_write_runs ret_def copy_to_frame)
  show "SCHEDULER k' = SCHEDULER k"
    using keeps_tableD [OF keeps_table_switch, of i regs c frame k] assms by simp
qed

lemma schedule_run:
  assumes "sched_inv k"
  shows "schedule frame k =
    (let (target, st) = dispatch (select_next_ready MAX_TASKS) frame (mepc_csr k) (mstatus_csr k) (SCHEDULER k) in
     case target of
       None \<Rightarrow> Return frame (k\<lparr>SCHEDULER := st\<rparr>)
     | Some (i, regs, c) \<Rightarrow> apply_switch i regs c frame (k\<lparr>SCHEDULER := st\<rparr>))"
  unfolding schedule_def using assms by (intro schedule_with_run) (simp add: sched_ok_def)

text \<open>A concrete kernel state: idle, a running user task, a ready and a dead one.\<close>

definition example_task :: "nat \<Rightarrow> TaskState \<Rightarrow> u64 \<Rightarrow> Task" where
  "example_task i s e = (Task_new (TaskId (of_nat i)) e 0x80100000)\<lparr>task_state := s\<rparr>"

definition example_sched :: SchedulerState where
  "example_sched = \<lparr>current = Some 1, tasks = [
     Some (example_task 0 Ready 0x80000100), Some (example_task 1 Running 0x80008000),
     Some (example_task 2 Ready 0x80008100), Some (example_task 3 Dead 0x80008200)]\<rparr>"

definition example_kernel :: "u8 list \<Rightarrow> kernel" where
  "example_kernel vs = hart.extend (booted_hart\<lparr>uart_in := vs\<rparr>)
     \<lparr>TICK_COUNT = \<lparr>inner = 0\<rparr>, SCHEDULER = example_sched, ALLOCATOR = BumpAllocator_new, \<dots> = ()\<rparr>"

definition zero_frame :: TrapFrame where
  "zero_frame = frame_of (TaskContext_new_umode 0 0)"

lemma example_task_ok: "task_ok i (example_task i s e)"
  by (simp add: task_ok_def example_task_def Task_new_def empty_config_ok)

lemma example_inv: "sched_inv (example_kernel vs)"
proof -
  have "[0..<MAX_TASKS] = [0, 1, 2, 3]" by (simp add: MAX_TASKS_def upt_rec)
  moreover have "MAX_TASKS = 4" by (simp add: MAX_TASKS_def)
  ultimately show ?thesis
    by (simp add: sched_ok_def example_kernel_def example_sched_def hart.defs kernel.defs
        current_in_range_def slot_ok_def example_task_ok)
      (simp add: example_task_def Task_new_def)
qed

text \<open>The exact result of a call, by whether a task is chosen and whether its message goes out.\<close>

lemma schedule_none:
  assumes "sched_inv k"
    and "select_next_ready MAX_TASKS (current (SCHEDULER k))
      (is_ready (save_current frame (mepc_csr k) (mstatus_csr k) (SCHEDULER k))) = None"
  shows "schedule frame k =
    Return frame (k\<lparr>SCHEDULER := save_current frame (mepc_csr k) (mstatus_csr k) (SCHEDULER k)\<rparr>)"
  using assms(2) by (simp add: schedule_run [OF assms(1)] dispatch_def Let_def)

lemma schedule_some:
  assumes "sched_inv k"
    and "select_next_ready MAX_TASKS (current (SCHEDULER k))
      (is_ready (save_current frame (mepc_csr k) (mstatus_csr k) (SCHEDULER k))) = Some i"
  obtains t where "i < MAX_TASKS"
    "tasks (save_current frame (mepc_csr k) (mstatus_csr k) (SCHEDULER k)) ! i = Some t"
    "schedule frame k = apply_switch i (cfg_regions (pmp_config t)) (task_context t) frame
      (k\<lparr>SCHEDULER := mark_running i (save_current frame (mepc_csr k) (mstatus_csr k) (SCHEDULER k))\<rparr>)"
  using assms(1)
proof (cases rule: rr.dispatch_cases [of _ frame "mepc_csr k" "mstatus_csr k"])
  case none
  then show ?thesis using assms(2) rr.select_ready by fastforce
next
  case (switch j t)
  then show ?thesis using assms(2) by (intro that [of t]) (simp_all add: schedule_run [OF assms(1)])
qed

lemma example_select:
  "select_next_ready MAX_TASKS (current example_sched) (is_ready (save_current zero_frame me ms example_sched)) = Some 2"
proof -
  have "[0..<MAX_TASKS] = [0, 1, 2, 3]" "MAX_TASKS = 4" by (simp_all add: MAX_TASKS_def upt_rec)
  then show ?thesis
    by (simp add: select_next_ready_def scan_start_def IDLE_TASK_INDEX_def Let_def example_sched_def
        is_ready_def save_current_def example_task_def)
qed

lemma switch_message_budget: "i < 4 \<Longrightarrow> length (switch_message i) = 29"
  by (simp add: switch_message_def digits_small)

lemma example_kernel_sel [simp]:
  "SCHEDULER (example_kernel vs) = example_sched" "uart_in (example_kernel vs) = vs"
  "pmpaddr_csr (example_kernel vs) = pmpaddr_csr booted_hart"
  "mepc_csr (example_kernel vs) = 0" "mstatus_csr (example_kernel vs) = 0"
  "entry_cfg (example_kernel vs) = entry_cfg booted_hart"
  by (auto simp: example_kernel_def hart.defs booted_hart_def reset_hart_def entry_cfg_def)

lemma example_kernel_pmp:
  "length (pmpaddr_csr (example_kernel vs)) = 16" "task_entries_unlocked (example_kernel vs)"
  using booted_hart_entries by (simp_all add: kernel_entries_def task_entries_unlocked_def)

lemma example_budget: "tx_budget (example_kernel (replicate n 0x20)) = n"
  by (simp add: tx_budget_def tx_ready_def LSR_TX_EMPTY_def)

lemma example_schedule:
  "\<exists>frame' k'. schedule zero_frame (example_kernel (replicate 29 0x20)) = Return frame' k'"
proof -
  let ?k = "example_kernel (replicate 29 0x20)"
  have sel: "select_next_ready MAX_TASKS (current (SCHEDULER ?k))
      (is_ready (save_current zero_frame (mepc_csr ?k) (mstatus_csr ?k) (SCHEDULER ?k))) = Some 2"
    by (simp add: example_select)
  obtain t :: Task where run: "schedule zero_frame ?k =
      apply_switch 2 (cfg_regions (pmp_config t)) (task_context t) zero_frame
      (?k\<lparr>SCHEDULER := mark_running 2 (save_current zero_frame (mepc_csr ?k) (mstatus_csr ?k) (SCHEDULER ?k))\<rparr>)"
    by (rule schedule_some [OF example_inv sel])
  show ?thesis unfolding run
    by (rule apply_switch_run [of 2 "?k\<lparr>SCHEDULER := mark_running 2 (save_current zero_frame
          (mepc_csr ?k) (mstatus_csr ?k) (SCHEDULER ?k))\<rparr>" "cfg_regions (pmp_config t)" "task_context t" zero_frame])
      (use example_kernel_pmp [of "replicate 29 0x20"] in
        \<open>auto simp: example_budget switch_message_budget\<close>)
qed

lemma schedule_virtual:
  assumes inv: "sched_inv k" and ret: "schedule frame k = Return frame' k'"
    and i: "i < MAX_TASKS" "tasks (SCHEDULER k) ! i \<noteq> None"
  shows "virtual_context (SCHEDULER k') (frame', mepc_csr k', mstatus_csr k') i =
    virtual_context (SCHEDULER k) (frame, mepc_csr k, mstatus_csr k) i"
proof -
  let ?d = "dispatch (select_next_ready MAX_TASKS) frame (mepc_csr k) (mstatus_csr k) (SCHEDULER k)"
  have "SCHEDULER k' = snd ?d \<and>
      (frame', mepc_csr k', mstatus_csr k') = resumed (fst ?d) (frame, mepc_csr k, mstatus_csr k)"
  proof (cases "fst ?d")
    case None
    then show ?thesis using ret by (auto simp: schedule_run [OF inv] resumed_def split: prod.splits)
  next
    case (Some target)
    obtain j regs c where target: "target = (j, regs, c)" by (cases target)
    have "apply_switch j regs c frame (k\<lparr>SCHEDULER := snd ?d\<rparr>) = Return frame' k'"
      using ret Some target by (simp add: schedule_run [OF inv] split: prod.splits)
    from apply_switch_result [OF this] Some target show ?thesis
      by (simp add: resumed_def saved_view_def)
  qed
  with rr.dispatch_virtual [OF inv i] show ?thesis by metis
qed

text \<open>
  C14: A switch changes which task is on the hart, never what a task will see: for every task in
  the table, the registers, program counter and status it will next execute with (the live ones
  if it is the current task, the saved ones otherwise) are the same after \<open>schedule\<close> returns as
  before it was called.
\<close>

theorem schedule_preserves_contexts:
  assumes inv: "sched_inv k" and ret: "schedule frame k = Return frame' k'"
    and i: "i < MAX_TASKS" "tasks (SCHEDULER k) ! i \<noteq> None"
  shows "virtual_context (SCHEDULER k') (frame', mepc_csr k', mstatus_csr k') i =
    virtual_context (SCHEDULER k) (frame, mepc_csr k, mstatus_csr k) i"
  using schedule_virtual [OF assms] .

theorem schedule_preserves_contexts_witness:
  "\<exists>frame' k'. schedule zero_frame (example_kernel (replicate 29 0x20)) = Return frame' k' \<and>
     virtual_context (SCHEDULER k') (frame', mepc_csr k', mstatus_csr k') 1 = Some (zero_frame, 0, 0)"
proof -
  let ?k = "example_kernel (replicate 29 0x20)"
  obtain frame' k' where run: "schedule zero_frame ?k = Return frame' k'"
    using example_schedule by blast
  have "1 < MAX_TASKS" "tasks (SCHEDULER ?k) ! 1 \<noteq> None" "current (SCHEDULER ?k) = Some 1"
    by (simp_all add: MAX_TASKS_def example_sched_def)
  with schedule_preserves_contexts [OF example_inv run, of 1] run show ?thesis
    by (auto simp: virtual_context_def)
qed

text \<open>
  C19: What one call of \<open>schedule\<close> does. If no task is ready it only saves the current task's
  context and hands the frame back. Otherwise the chosen task is marked running and current;
  when the transmitter takes the message, the call returns with that task's saved registers in
  the frame, its program counter and status in the CSRs, its regions in entries 4 to 15 of the
  PMP and the kernel's entries untouched, having printed exactly the switch message; when the
  transmitter stalls, the hart is left polling with the table already switched.
\<close>

theorem schedule_outcome:
  fixes frame k
  defines "st \<equiv> save_current frame (mepc_csr k) (mstatus_csr k) (SCHEDULER k)"
  assumes inv: "sched_inv k" and pmp: "length (pmpaddr_csr k) = 16" "task_entries_unlocked k"
  shows "case select_next_ready MAX_TASKS (current (SCHEDULER k)) (is_ready st) of
      None \<Rightarrow> schedule frame k = Return frame (k\<lparr>SCHEDULER := st\<rparr>)
    | Some i \<Rightarrow> \<exists>t. tasks st ! i = Some t \<and>
        (if length (switch_message i) \<le> tx_budget k
         then \<exists>k' tr. schedule frame k = Return (frame_of (task_context t)) k' \<and>
           SCHEDULER k' = mark_running i st \<and>
           mepc_csr k' = mepc (task_context t) \<and> mstatus_csr k' = mstatus (task_context t) \<and>
           mmio_trace k' = mmio_trace k @ tr \<and> thr_bytes tr = switch_message i \<and> paced tr \<and>
           (\<forall>j<16. entry_cfg k' j =
             (if j < 4 then entry_cfg k j else task_cfg (cfg_regions (pmp_config t)) j)) \<and>
           (\<forall>j<16. entry_addr k' j =
             (if j < 4 then entry_addr k j else task_addr (cfg_regions (pmp_config t)) j))
         else \<exists>k'. schedule frame k = Hang k' \<and> SCHEDULER k' = mark_running i st)"
proof (cases "select_next_ready MAX_TASKS (current (SCHEDULER k)) (is_ready st)")
  case None
  then show ?thesis using schedule_none [OF inv] unfolding st_def by simp
next
  case (Some i)
  let ?k = "k\<lparr>SCHEDULER := mark_running i st\<rparr>"
  obtain t :: Task where t: "i < 4" "tasks st ! i = Some t"
    "schedule frame k = apply_switch i (cfg_regions (pmp_config t)) (task_context t) frame ?k"
    using schedule_some [OF inv Some [unfolded st_def]] unfolding st_def MAX_TASKS_def by blast
  show ?thesis
  proof (cases "length (switch_message i) \<le> tx_budget k")
    case True
    then have prem: "length (switch_message i) \<le> tx_budget ?k" "length (pmpaddr_csr ?k) = 16"
      "task_entries_unlocked ?k" using pmp by simp_all
    obtain k' vs tr c0 c2 pa where run:
      "apply_switch i (cfg_regions (pmp_config t)) (task_context t) frame ?k = Return (frame_of (task_context t)) k'"
      and k': "k' = ?k\<lparr>uart_in := vs, mmio_trace := mmio_trace ?k @ tr, pmpcfg0_csr := c0, pmpcfg2_csr := c2,
        pmpaddr_csr := pa, mepc_csr := mepc (task_context t), mstatus_csr := mstatus (task_context t)\<rparr>"
      and out: "thr_bytes tr = switch_message i" "paced tr"
      and pmp': "\<forall>j<16. entry_cfg k' j = (if j < 4 then entry_cfg ?k j else task_cfg (cfg_regions (pmp_config t)) j)"
        "\<forall>j<16. entry_addr k' j = (if j < 4 then entry_addr ?k j else task_addr (cfg_regions (pmp_config t)) j)"
      by (rule apply_switch_run [OF t(1) prem])
    have "SCHEDULER k' = mark_running i st" "mepc_csr k' = mepc (task_context t)"
      "mstatus_csr k' = mstatus (task_context t)" "mmio_trace k' = mmio_trace k @ tr" by (simp_all add: k')
    then show ?thesis
      using Some True t(2) run t(3) out pmp' by (auto intro!: exI [of _ t] exI [of _ k'] exI [of _ tr])
  next
    case False
    then have "\<not> length (switch_message i) \<le> tx_budget ?k" by simp
    then obtain k' where "apply_switch i (cfg_regions (pmp_config t)) (task_context t) frame ?k = Hang k'"
      "console_step ?k k'"
      by (rule apply_switch_hang [OF t(1)])
    moreover from this(2) have "SCHEDULER k' = mark_running i st" by (auto simp: console_step_def)
    ultimately show ?thesis using Some False t by auto
  qed
qed

theorem schedule_outcome_witness:
  "\<exists>k' tr. schedule zero_frame (example_kernel (replicate 29 0x20)) =
       Return (frame_of (task_context (example_task 2 Ready 0x80008100))) k' \<and>
     mepc_csr k' = 0x80008100 \<and> current (SCHEDULER k') = Some 2 \<and> thr_bytes tr = switch_message 2"
proof -
  let ?k = "example_kernel (replicate 29 0x20)"
  have t: "tasks (save_current zero_frame 0 0 example_sched) ! 2 = Some (example_task 2 Ready 0x80008100)"
    by (simp add: save_current_def example_sched_def)
  have "mepc (task_context (example_task 2 Ready 0x80008100)) = 0x80008100"
    by (simp add: example_task_def Task_new_def TaskContext_new_umode_def)
  with schedule_outcome [OF example_inv example_kernel_pmp, of zero_frame "replicate 29 0x20"]
  show ?thesis
    by (auto simp: example_select t example_budget switch_message_budget)
qed

text \<open>
  C20: Every operation of the scheduler keeps its table consistent, whether it returns, panics or
  hangs: each task carries its slot's number and sixteen encodable regions, the current index is
  inside the table and names a task, and only the current task can be marked running, so that at
  most one is.
\<close>

theorem scheduler_invariant:
  assumes "sched_inv k"
  shows "sched_inv (final_state (schedule frame k)) \<and>
    sched_inv (final_state (kill_current frame k)) \<and>
    sched_inv (final_state (sched_init k)) \<and>
    sched_inv (final_state (spawn spec k)) \<and>
    (\<forall>i < MAX_TASKS. \<forall>j < MAX_TASKS. \<forall>t u. tasks (SCHEDULER k) ! i = Some t \<longrightarrow>
       tasks (SCHEDULER k) ! j = Some u \<longrightarrow> task_state t = Running \<longrightarrow> task_state u = Running \<longrightarrow> i = j)"
proof -
  have "i = j" if "i < MAX_TASKS" "j < MAX_TASKS" "tasks (SCHEDULER k) ! i = Some t"
    "tasks (SCHEDULER k) ! j = Some u" "task_state t = Running" "task_state u = Running" for i j t u
    using running_is_current [OF assms that(1,3,5)] running_is_current [OF assms that(2,4,6)] by simp
  with keepsD [OF keeps_schedule assms] keepsD [OF keeps_kill_current assms]
    keepsD [OF keeps_sched_init assms] keepsD [OF keeps_spawn assms]
  show ?thesis by blast
qed

theorem scheduler_invariant_witness:
  "sched_inv (example_kernel []) \<and> sched_inv (final_state (kill_current zero_frame (example_kernel [])))"
  using scheduler_invariant [OF example_inv] example_inv by blast

text \<open>
  C21: No starvation: whatever registers the interrupted tasks have, a normal task that is ready
  or running is the current one after at least one of any four successive switches.
\<close>

theorem schedule_fair:
  assumes "sched_ok MAX_TASKS st" "0 < j" "j < MAX_TASKS" "live_task st j" "MAX_TASKS \<le> length lives"
  shows "\<exists>st'\<in>set (run_ticks (select_next_ready MAX_TASKS) lives st). current st' = Some j"
  using rr.ticks_fair [OF assms(2,3,1,4,5)] .

theorem schedule_fair_witness:
  "\<exists>st'\<in>set (run_ticks (select_next_ready MAX_TASKS) (replicate 4 (zero_frame, 0, 0)) example_sched).
     current st' = Some 2"
  using schedule_fair [of example_sched 2 "replicate 4 (zero_frame, 0, 0)"] example_inv [of "[]"]
  by (simp add: MAX_TASKS_def live_task_def example_sched_def example_task_def)

lemma schedule_table:
  assumes "sched_inv k" "schedule frame k = Return frame' k'"
  shows "SCHEDULER k' = snd (dispatch (select_next_ready MAX_TASKS) frame (mepc_csr k) (mstatus_csr k) (SCHEDULER k))"
  using assms(2) apply_switch_result(4)
  by (fastforce simp: schedule_run [OF assms(1)] split: prod.splits option.splits)

lemma ready_live: "none_running st \<Longrightarrow> i < length (tasks st) \<Longrightarrow> live_task st i = is_ready st i"
  by (auto simp: none_running_def live_task_def is_ready_def split: option.splits)

text \<open>With room in the transmitter the kill message goes out and the section returns.\<close>

definition kill_message :: "nat \<Rightarrow> u8 list" where
  "kill_message i = bytes ''[sched] task killed: '' @ dec_bytes i @ [13, 10]"

lemma newline_bytes: "crlf (bytes newline) = [13, 10]"
  by (simp add: newline_def of_char_def char_of_def bit_Suc bit_0)

lemma emits_numbered:
  assumes "i < 4"
  shows "emits (block [puts s, put_dec (of_nat i), puts newline]) (crlf (bytes s) @ dec_bytes i @ [13, 10])"
proof -
  have "unat (of_nat i :: u64) = i" using assms by (simp add: unsigned_of_nat take_bit_nat_eq_self_iff)
  then show ?thesis
    using emits_then [OF emits_puts [of s] emits_then [OF emits_put_dec [of "of_nat i"]
          emits_then [OF emits_puts [of newline] emits_skip]]]
    by (simp add: newline_bytes)
qed

lemma emits_kill_message:
  assumes "i < 4"
  shows "emits (block [puts ''[sched] task killed: '', put_dec (of_nat i), puts newline]) (kill_message i)"
proof -
  have "crlf (bytes ''[sched] task killed: '') = bytes ''[sched] task killed: ''"
    by (intro crlf_plain) simp
  with emits_numbered [OF assms, of "''[sched] task killed: ''"] show ?thesis
    unfolding kill_message_def by (simp only:)
qed

lemma kill_locked_run_out:
  fixes k :: "'a kernel_scheme"
  assumes ok: "sched_inv k" and c: "current (SCHEDULER k) = Some c" "tasks (SCHEDULER k) ! c = Some t"
  shows "c < 4" and "kill_locked (k\<lparr>mstatus_csr := mstatus_csr k AND NOT 8\<rparr>) =
    block [puts ''[sched] task killed: '', put_dec (of_nat c), puts newline]
      (k\<lparr>mstatus_csr := mstatus_csr k AND NOT 8,
        SCHEDULER := (SCHEDULER k)\<lparr>tasks := (tasks (SCHEDULER k))[c := Some (t\<lparr>task_state := Dead\<rparr>)]\<rparr>\<rparr>)"
proof -
  have "c < length (tasks (SCHEDULER k))" using sched_okD(1,2) [OF ok] c(1) by simp
  then show "kill_locked (k\<lparr>mstatus_csr := mstatus_csr k AND NOT 8\<rparr>) =
    block [puts ''[sched] task killed: '', put_dec (of_nat c), puts newline]
      (k\<lparr>mstatus_csr := mstatus_csr k AND NOT 8,
        SCHEDULER := (SCHEDULER k)\<lparr>tasks := (tasks (SCHEDULER k))[c := Some (t\<lparr>task_state := Dead\<rparr>)]\<rparr>\<rparr>)"
    using c by (simp add: kill_locked_def bind_comp_def gets_def then_comp_def modify_def)
  show "c < 4" using sched_okD(2) [OF ok] c(1) by (simp add: MAX_TASKS_def)
qed

lemma kill_locked_returns:
  fixes k :: "'a kernel_scheme"
  assumes ok: "sched_inv k" and c: "current (SCHEDULER k) = Some c" "tasks (SCHEDULER k) ! c = Some t"
    and room: "length (kill_message c) \<le> tx_budget k"
  obtains vs tr where "with_lock kill_locked k =
      Return () (k\<lparr>SCHEDULER := (SCHEDULER k)\<lparr>tasks := (tasks (SCHEDULER k))[c := Some (t\<lparr>task_state := Dead\<rparr>)]\<rparr>,
        uart_in := vs, mmio_trace := mmio_trace k @ tr\<rparr>)"
    "thr_bytes tr = kill_message c" "tx_ready vs = tx_budget k - length (kill_message c)"
proof -
  let ?st = "(SCHEDULER k)\<lparr>tasks := (tasks (SCHEDULER k))[c := Some (t\<lparr>task_state := Dead\<rparr>)]\<rparr>"
  let ?out = "block [puts ''[sched] task killed: '', put_dec (of_nat c), puts newline] ::
      ('a kernel_scheme, unit) comp"
  let ?k = "k\<lparr>mstatus_csr := mstatus_csr k AND NOT 8, SCHEDULER := ?st\<rparr>"
  note run = kill_locked_run_out [OF ok c]
  have "length (kill_message c) \<le> tx_budget ?k" using room by (simp add: tx_budget_def)
  then obtain vs tr where out: "?out ?k = Return () (?k\<lparr>uart_in := vs, mmio_trace := mmio_trace ?k @ tr\<rparr>)"
    "thr_bytes tr = kill_message c" "tx_ready vs = tx_budget ?k - length (kill_message c)"
    using emitsD [OF emits_kill_message [OF run(1)]] by metis
  have "with_lock kill_locked k = Return () (k\<lparr>SCHEDULER := ?st, uart_in := vs, mmio_trace := mmio_trace k @ tr\<rparr>)"
    using out(1) run(2) restore_MIE [of "mstatus_csr k" "mstatus_csr k"]
    by (auto simp: with_lock_eq intro: kernel.equality simp del: block.simps)
  then show ?thesis
    by (rule that) (use out in \<open>simp_all add: tx_budget_def\<close>)
qed

lemma kill_locked_room:
  assumes ok: "sched_inv k" and c: "current (SCHEDULER k) = Some c" "tasks (SCHEDULER k) ! c = Some t"
    and ret: "with_lock kill_locked k = Return () k1"
  shows "length (kill_message c) \<le> tx_budget k"
proof (rule ccontr)
  note run = kill_locked_run_out [OF ok c]
  let ?k = "k\<lparr>mstatus_csr := mstatus_csr k AND NOT 8,
    SCHEDULER := (SCHEDULER k)\<lparr>tasks := (tasks (SCHEDULER k))[c := Some (t\<lparr>task_state := Dead\<rparr>)]\<rparr>\<rparr>"
  assume "\<not> ?thesis"
  then have "\<not> length (kill_message c) \<le> tx_budget ?k" by (simp add: tx_budget_def)
  then obtain h where "block [puts ''[sched] task killed: '', put_dec (of_nat c), puts newline] ?k = Hang h"
    by (rule emits_HangD [OF emits_kill_message [OF run(1)]])
  with run(2) ret show False by (simp add: with_lock_eq del: block.simps)
qed

lemma schedule_returns:
  assumes "sched_inv k" "length (pmpaddr_csr k) = 16" "task_entries_unlocked k" "29 \<le> tx_budget k"
  obtains frame' k' where "schedule frame k = Return frame' k'"
proof (cases "select_next_ready MAX_TASKS (current (SCHEDULER k))
    (is_ready (save_current frame (mepc_csr k) (mstatus_csr k) (SCHEDULER k)))")
  case None
  from schedule_none [OF assms(1) this] that show ?thesis by blast
next
  case (Some i)
  let ?k = "k\<lparr>SCHEDULER := mark_running i (save_current frame (mepc_csr k) (mstatus_csr k) (SCHEDULER k))\<rparr>"
  obtain t :: Task where t: "i < MAX_TASKS"
    "schedule frame k = apply_switch i (cfg_regions (pmp_config t)) (task_context t) frame ?k"
    by (rule schedule_some [OF assms(1) Some])
  have i: "i < 4" using t(1) by (simp add: MAX_TASKS_def)
  have "length (switch_message i) \<le> tx_budget ?k" "length (pmpaddr_csr ?k) = 16" "task_entries_unlocked ?k"
    using assms(2-4) i by (simp_all add: switch_message_budget)
  from apply_switch_run [OF i this, of "cfg_regions (pmp_config t)" "task_context t" frame] t(2) that
  show ?thesis by metis
qed

lemma kill_current_returns:
  assumes ok: "sched_inv k" and c: "current (SCHEDULER k) = Some c"
    and pmp: "length (pmpaddr_csr k) = 16" "task_entries_unlocked k" and room: "53 \<le> tx_budget k"
  obtains frame' k' where "kill_current frame k = Return frame' k'"
proof -
  obtain t where t: "c < MAX_TASKS" "tasks (SCHEDULER k) ! c = Some t" "task_ok c t"
    by (rule current_task [OF ok c])
  have msg: "length (kill_message c) = 24"
    using t(1) by (simp add: kill_message_def digits_small MAX_TASKS_def)
  have room': "length (kill_message c) \<le> tx_budget k" using msg room by simp
  let ?st = "(SCHEDULER k)\<lparr>tasks := (tasks (SCHEDULER k))[c := Some (t\<lparr>task_state := Dead\<rparr>)]\<rparr>"
  obtain vs tr where run: "with_lock kill_locked k =
      Return () (k\<lparr>SCHEDULER := ?st, uart_in := vs, mmio_trace := mmio_trace k @ tr\<rparr>)"
    "thr_bytes tr = kill_message c" "tx_ready vs = tx_budget k - length (kill_message c)"
    by (rule kill_locked_returns [OF ok c t(2) room'])
  let ?k = "k\<lparr>SCHEDULER := ?st, uart_in := vs, mmio_trace := mmio_trace k @ tr\<rparr>"
  have "sched_inv ?k" using keepsD [OF keeps_sched_lock [OF keeps_kill_locked] ok] run(1) by simp
  moreover have "length (pmpaddr_csr ?k) = 16" "task_entries_unlocked ?k" "29 \<le> tx_budget ?k"
    using pmp run(3) msg room by (simp_all add: tx_budget_def)
  ultimately obtain frame' k' where "schedule frame ?k = Return frame' k'" by (rule schedule_returns)
  with run(1) have "kill_current frame k = Return frame' k'"
    by (simp add: kill_current_def then_comp_def bind_comp_def)
  then show ?thesis by (rule that)
qed

text \<open>Killing marks the current task and calls the scheduler; nothing else of the registers changes.\<close>

lemma kill_current_split:
  assumes inv: "sched_inv k" and c: "current (SCHEDULER k) = Some c"
    and ret: "kill_current frame k = Return frame' k'"
  obtains t k1 where "c < MAX_TASKS" "tasks (SCHEDULER k) ! c = Some t" "sched_inv k1"
    "schedule frame k1 = Return frame' k'"
    "SCHEDULER k1 = (SCHEDULER k)\<lparr>tasks := (tasks (SCHEDULER k))[c := Some (t\<lparr>task_state := Dead\<rparr>)]\<rparr>"
    "mepc_csr k1 = mepc_csr k" "mstatus_csr k1 = mstatus_csr k"
proof -
  obtain t where t: "c < MAX_TASKS" "tasks (SCHEDULER k) ! c = Some t" "task_ok c t"
    by (rule current_task [OF inv c])
  from ret obtain k1 where k1: "with_lock kill_locked k = Return () k1" "schedule frame k1 = Return frame' k'"
    unfolding kill_current_def by (auto elim!: then_returnE)
  obtain vs tr where "with_lock kill_locked k =
      Return () (k\<lparr>SCHEDULER := (SCHEDULER k)\<lparr>tasks := (tasks (SCHEDULER k))[c := Some (t\<lparr>task_state := Dead\<rparr>)]\<rparr>,
        uart_in := vs, mmio_trace := mmio_trace k @ tr\<rparr>)"
    by (rule kill_locked_returns [OF inv c t(2) kill_locked_room [OF inv c t(2) k1(1)]])
  moreover have "sched_inv k1" using keepsD [OF keeps_sched_lock [OF keeps_kill_locked] inv] k1(1) by simp
  ultimately show ?thesis using k1 t by (intro that [of t k1]) simp_all
qed

lemma kill_current_dead:
  assumes inv: "sched_inv k" and c: "current (SCHEDULER k) = Some c"
    and ret: "kill_current frame k = Return frame' k'"
  shows "(\<exists>t. tasks (SCHEDULER k') ! c = Some t \<and> task_state t = Dead) \<and>
    (current (SCHEDULER k') \<noteq> Some c \<or> (\<forall>j < MAX_TASKS. \<not> live_task (SCHEDULER k') j))"
proof -
  obtain t k1 where t: "c < MAX_TASKS" "sched_inv k1" "schedule frame k1 = Return frame' k'"
    "SCHEDULER k1 = (SCHEDULER k)\<lparr>tasks := (tasks (SCHEDULER k))[c := Some (t\<lparr>task_state := Dead\<rparr>)]\<rparr>"
    by (rule kill_current_split [OF assms])
  let ?st = "SCHEDULER k1" and ?d = "dispatch (select_next_ready MAX_TASKS) frame (mepc_csr k1) (mstatus_csr k1) (SCHEDULER k1)"
  have dead: "tasks ?st ! c = Some (t\<lparr>task_state := Dead\<rparr>)"
    using t(1,4) sched_okD(1) [OF inv] by simp
  have k': "SCHEDULER k' = snd ?d" by (rule schedule_table [OF t(2,3)])
  have "\<exists>t. tasks (SCHEDULER k') ! c = Some t \<and> task_state t = Dead"
    unfolding k' by (rule rr.dispatch_dead(1) [OF t(2,1) dead]) simp
  moreover have "current (snd ?d) \<noteq> Some c \<or> (\<forall>j < MAX_TASKS. \<not> live_task (snd ?d) j)"
    using t(2)
  proof (cases rule: rr.dispatch_cases [of _ frame "mepc_csr k1" "mstatus_csr k1"])
    case none
    then show ?thesis
      using ready_live [OF save_current_ok(2) [OF t(2)]] sched_okD(1) [OF t(2)] by simp
  next
    case (switch i u)
    have "i \<noteq> c" using rr.dispatch_dead(2) [OF t(2,1) dead, of frame "mepc_csr k1" "mstatus_csr k1" i] switch(5)
      by simp
    then show ?thesis using switch(5) by simp
  qed
  ultimately show ?thesis unfolding k' by blast
qed

lemma kill_current_virtual:
  assumes inv: "sched_inv k" and c: "current (SCHEDULER k) = Some c"
    and ret: "kill_current frame k = Return frame' k'"
    and i: "i < MAX_TASKS" "tasks (SCHEDULER k) ! i \<noteq> None"
  shows "virtual_context (SCHEDULER k') (frame', mepc_csr k', mstatus_csr k') i =
    virtual_context (SCHEDULER k) (frame, mepc_csr k, mstatus_csr k) i"
proof -
  obtain t k1 where k1: "sched_inv k1" "schedule frame k1 = Return frame' k'"
    "SCHEDULER k1 = (SCHEDULER k)\<lparr>tasks := (tasks (SCHEDULER k))[c := Some (t\<lparr>task_state := Dead\<rparr>)]\<rparr>"
    "mepc_csr k1 = mepc_csr k" "mstatus_csr k1 = mstatus_csr k"
    by (rule kill_current_split [OF inv c ret])
  have "tasks (SCHEDULER k1) ! i \<noteq> None" using k1(3) i sched_okD(1) [OF inv] by (cases "i = c") simp_all
  from schedule_virtual [OF k1(1,2) i(1) this] c k1(3-5) show ?thesis
    by (cases "i = c") (simp_all add: virtual_context_def)
qed

text \<open>No task is created or removed, and none is given other regions.\<close>

lemma schedule_attribute:
  assumes save: "\<And>fr me ms t. g (save_task fr me ms t) = g t"
    and mark: "\<And>t. task_state t = Ready \<Longrightarrow> g (t\<lparr>task_state := Running\<rparr>) = g t"
    and inv: "sched_inv k" and ret: "schedule frame k = Return frame' k'" and i: "i < MAX_TASKS"
  shows "map_option g (tasks (SCHEDULER k') ! i) = map_option g (tasks (SCHEDULER k) ! i)"
proof -
  let ?st = "save_current frame (mepc_csr k) (mstatus_csr k) (SCHEDULER k)"
  have saved: "map_option g (tasks ?st ! i) = map_option g (tasks (SCHEDULER k) ! i)"
    by (auto simp: tasks_save [OF inv i] save option.map_comp intro!: option.map_cong)
  note table = schedule_table [OF inv ret] and len = sched_okD(1) [OF save_current_ok(1) [OF inv]]
  show ?thesis using inv
  proof (cases rule: rr.dispatch_cases [of _ frame "mepc_csr k" "mstatus_csr k"])
    case (switch j t)
    then show ?thesis using saved i len
      by (cases "i = j") (simp_all add: table mark_running_def mark is_ready_def)
  qed (use saved table in simp)
qed

lemma schedule_configs:
  assumes "sched_inv k" "schedule frame k = Return frame' k'" "i < MAX_TASKS"
  shows "map_option pmp_config (tasks (SCHEDULER k') ! i) = map_option pmp_config (tasks (SCHEDULER k) ! i)"
  by (rule schedule_attribute [OF _ _ assms]) (simp_all add: save_task_def)

lemma kill_current_configs:
  assumes inv: "sched_inv k" and c: "current (SCHEDULER k) = Some c"
    and ret: "kill_current frame k = Return frame' k'" and i: "i < MAX_TASKS"
  shows "map_option pmp_config (tasks (SCHEDULER k') ! i) = map_option pmp_config (tasks (SCHEDULER k) ! i)"
proof -
  obtain t k1 where k1: "tasks (SCHEDULER k) ! c = Some t" "sched_inv k1" "schedule frame k1 = Return frame' k'"
    "SCHEDULER k1 = (SCHEDULER k)\<lparr>tasks := (tasks (SCHEDULER k))[c := Some (t\<lparr>task_state := Dead\<rparr>)]\<rparr>"
    by (rule kill_current_split [OF inv c ret])
  have "map_option pmp_config (tasks (SCHEDULER k1) ! i) = map_option pmp_config (tasks (SCHEDULER k) ! i)"
    using k1(1,4) i sched_okD(1) [OF inv] by (cases "i = c") simp_all
  with schedule_configs [OF k1(2,3) i] show ?thesis by simp
qed

text \<open>
  A killed task is gone: when \<open>kill_current\<close> returns, the task that was current is dead, and
  another task is current unless no task is ready or running any more. No other task is touched:
  what each of them will next execute with is unchanged.
\<close>

lemma kill_current_final:
  assumes inv: "sched_inv k" and c: "current (SCHEDULER k) = Some c"
    and ret: "kill_current frame k = Return frame' k'"
  shows "(\<exists>t. tasks (SCHEDULER k') ! c = Some t \<and> task_state t = Dead) \<and>
    (current (SCHEDULER k') \<noteq> Some c \<or> (\<forall>j < MAX_TASKS. \<not> live_task (SCHEDULER k') j)) \<and>
    (\<forall>i < MAX_TASKS. i \<noteq> c \<longrightarrow> tasks (SCHEDULER k) ! i \<noteq> None \<longrightarrow>
       virtual_context (SCHEDULER k') (frame', mepc_csr k', mstatus_csr k') i =
       virtual_context (SCHEDULER k) (frame, mepc_csr k, mstatus_csr k) i)"
  using kill_current_dead [OF assms] kill_current_virtual [OF assms] by auto

end
