(* ===== verification/Spawning.thy ===== *)
theory Spawning
  imports Switching
begin

text \<open>
  Spawning a task, \<open>TaskSpec::spawn\<close>: the regions the builder produces, the stack the
  allocator hands out, the slot that is filled, and every way the call fails.
\<close>

section \<open>What the builder produces\<close>

definition null_region :: PmpRegion where
  "null_region = PmpRegion_new 0 0 0"

definition encodable :: "u64 \<times> u64 \<Rightarrow> bool" where
  "encodable r \<longleftrightarrow> 8 \<le> snd r \<and> is_power_of_two (snd r) \<and> fst r AND (snd r - 1) = 0"

text \<open>A builder that has taken the given regions.\<close>

definition built :: "PmpRegion list \<Rightarrow> PmpConfigBuilder" where
  "built rs = \<lparr>b_regions = replicate 4 null_region @ rs @ replicate (12 - length rs) null_region,
     next_idx = 4 + length rs\<rparr>"

lemma builder_built: "builder = built []"
proof -
  have "replicate 16 null_region = replicate 4 null_region @ replicate 12 null_region"
    by (simp flip: replicate_add)
  then show ?thesis by (simp add: builder_def built_def PMP_COUNT_def null_region_def)
qed

lemma builder_region_built:
  assumes "encodable (base, sz)" "length rs < 12"
  shows "builder_region base sz fl (built rs) s = Return (built (rs @ [PmpRegion_new base sz fl])) s"
proof -
  let ?x = "PmpRegion_new base sz fl"
  have "replicate (12 - length rs) null_region = null_region # replicate (11 - length rs) null_region"
    using assms(2) by (simp flip: replicate_Suc)
  then have "(b_regions (built rs))[4 + length rs := ?x] = b_regions (built (rs @ [?x]))"
    by (simp add: built_def list_update_append)
  then show ?thesis
    using assms by (simp add: builder_region_def encodable_def PMP_COUNT_def ret_def built_def)
qed

lemma add_mmio_built:
  assumes "list_all encodable regs" "length rs + length regs \<le> 12"
  shows "add_mmio regs (built rs) s = Return (built (rs @ map (\<lambda>r. PmpRegion_new (fst r) (snd r) RW) regs)) s"
  using assms
proof (induction regs arbitrary: rs)
  case Nil
  then show ?case by (simp add: ret_def)
next
  case (Cons r regs)
  then have "builder_region (fst r) (snd r) RW (built rs) s =
      Return (built (rs @ [PmpRegion_new (fst r) (snd r) RW])) s"
    by (intro builder_region_built) simp_all
  with Cons show ?case by (simp add: bind_comp_def mmio_region_def)
qed

definition user_regions :: "u64 \<times> u64 \<Rightarrow> u64 \<Rightarrow> (u64 \<times> u64) list \<Rightarrow> PmpRegion list" where
  "user_regions code bottom mmio_regs =
     PmpRegion_new (fst code) (snd code) RX # PmpRegion_new bottom 8192 RW #
     map (\<lambda>r. PmpRegion_new (fst r) (snd r) RW) mmio_regs"

lemma user_pmp_built:
  assumes "encodable code" "encodable (bottom, 8192)" "list_all encodable regs" "length regs \<le> 10"
  shows "user_pmp (fst code) (snd code) regs bottom s = Return (build (built (user_regions code bottom regs))) s"
proof -
  have "code_region (fst code) (snd code) builder s = Return (built [PmpRegion_new (fst code) (snd code) RX]) s"
    unfolding code_region_def builder_built using assms(1) by (simp add: builder_region_built)
  moreover have "stack_region bottom TASK_STACK_SIZE (built [c]) s =
      Return (built [c, PmpRegion_new bottom 8192 RW]) s" for c
    unfolding stack_region_def TASK_STACK_SIZE_def using assms(2) by (simp add: builder_region_built)
  ultimately show ?thesis
    using assms(4) add_mmio_built [OF assms(3), of
        "[PmpRegion_new (fst code) (snd code) RX, PmpRegion_new bottom 8192 RW]" s]
    by (simp add: user_pmp_def bind_comp_def ret_def user_regions_def)
qed

text \<open>Only valid regions are accepted.\<close>

lemma builder_region_accepts:
  assumes "builder_region base sz fl (built rs) s = Return b s'"
  shows "encodable (base, sz)" "length rs < 12" "b = built (rs @ [PmpRegion_new base sz fl])" "s' = s"
proof -
  show r: "encodable (base, sz)" "length rs < 12"
    using assms by (auto simp: builder_region_def encodable_def built_def PMP_COUNT_def panic_at_def split: if_splits)
  show "b = built (rs @ [PmpRegion_new base sz fl])" "s' = s"
    using assms builder_region_built [OF r, of fl s] by simp_all
qed

lemma add_mmio_accepts:
  assumes "add_mmio regs (built rs) s = Return b s'" "length rs \<le> 12"
  shows "list_all encodable regs \<and> length rs + length regs \<le> 12 \<and>
    b = built (rs @ map (\<lambda>r. PmpRegion_new (fst r) (snd r) RW) regs) \<and> s' = s"
  using assms
proof (induction regs arbitrary: rs)
  case Nil
  then show ?case by (simp add: ret_def)
next
  case (Cons r regs)
  then obtain b1 s1 where b1: "builder_region (fst r) (snd r) RW (built rs) s = Return b1 s1" "add_mmio regs b1 s1 = Return b s'"
    by (auto simp: mmio_region_def elim!: bind_returnE)
  note acc = builder_region_accepts [OF b1(1)]
  have "add_mmio regs (built (rs @ [PmpRegion_new (fst r) (snd r) RW])) s = Return b s'"
    using b1(2) acc(3,4) by simp
  from Cons.IH [OF this] acc(1,2) show ?case by simp
qed

lemma user_pmp_accepts:
  assumes "user_pmp cb cs regs bottom s = Return cfg s'"
  shows "encodable (cb, cs)" "encodable (bottom, 8192)" "list_all encodable regs" "length regs \<le> 10" "s' = s"
    "cfg = build (built (user_regions (cb, cs) bottom regs))"
proof -
  obtain b1 s1 b2 s2 b3 where b: "builder_region cb cs RX (built []) s = Return b1 s1"
    "builder_region bottom 8192 RW b1 s1 = Return b2 s2" "add_mmio regs b2 s2 = Return b3 s'" "cfg = build b3"
    using assms by (auto simp: user_pmp_def code_region_def stack_region_def builder_built TASK_STACK_SIZE_def ret_def
        elim!: bind_returnE)
  note a1 = builder_region_accepts [OF b(1)]
  note a2 = builder_region_accepts [OF b(2) [unfolded a1(3,4)]]
  have "add_mmio regs (built [PmpRegion_new cb cs RX, PmpRegion_new bottom 8192 RW]) s = Return b3 s'"
    using b(3) a2(3,4) by simp
  from add_mmio_accepts [OF this] a1(1) a2(1) b(4)
  show "encodable (cb, cs)" "encodable (bottom, 8192)" "list_all encodable regs" "length regs \<le> 10" "s' = s"
    "cfg = build (built (user_regions (cb, cs) bottom regs))"
    by (simp_all add: user_regions_def)
qed

lemma region_ok_encodable: "encodable (base, sz) \<Longrightarrow> fl = RX \<or> fl = RW \<Longrightarrow> region_ok (PmpRegion_new base sz fl)"
  by (auto simp: encodable_def region_ok_def PmpRegion_new_def locked_def RX_def RW_def flag_R_def flag_W_def flag_X_def)

text \<open>
  C28: The configuration type. Whatever code region, stack and list of device regions a user task is
  described with, if the builder returns then the configuration has sixteen entries, the first
  four of them, which the kernel keeps for itself, are empty, entries from 4 on are the code,
  stack and device regions in this order, every region is one that the hardware can represent
  exactly, and none is locked.
\<close>

theorem user_pmp_typed:
  assumes "user_pmp cb cs regs bottom s = Return cfg s'"
  shows "length (cfg_regions cfg) = PMP_COUNT \<and> take 4 (cfg_regions cfg) = replicate 4 (PmpRegion_new 0 0 0) \<and>
    take (2 + length regs) (drop 4 (cfg_regions cfg)) =
      PmpRegion_new cb cs RX # PmpRegion_new bottom 8192 RW # map (\<lambda>r. PmpRegion_new (fst r) (snd r) RW) regs \<and>
    list_all region_ok (cfg_regions cfg) \<and> length regs \<le> 10 \<and> s' = s"
proof -
  note a = user_pmp_accepts [OF assms]
  have "list_all region_ok (user_regions (cb, cs) bottom regs)"
    using a(1-3) by (auto simp: user_regions_def list_all_iff region_ok_encodable)
  moreover have "region_ok null_region" by (simp add: null_region_def region_ok_def PmpRegion_new_def locked_def)
  ultimately have "list_all region_ok (cfg_regions cfg)"
    using a(6) by (auto simp: build_def built_def list_all_iff)
  then show ?thesis
    using a(4-6) by (simp add: build_def built_def user_regions_def null_region_def PMP_COUNT_def)
qed

theorem user_pmp_typed_witness:
  "\<exists>cfg. user_pmp 0x80008000 0x1000 [(0x10000000, 0x1000)] 0x80020000 () = Return cfg () \<and>
     length (cfg_regions cfg) = 16 \<and> list_all region_ok (cfg_regions cfg)"
proof -
  have "encodable (0x80008000, 0x1000)" "encodable (0x80020000, 8192)" "encodable (0x10000000, 0x1000)"
    by (simp_all add: encodable_def is_power_of_two_def)
  then obtain cfg where cfg: "user_pmp 0x80008000 0x1000 [(0x10000000, 0x1000)] 0x80020000 () = Return cfg ()"
    using user_pmp_built [of "(0x80008000, 0x1000)" "0x80020000" "[(0x10000000, 0x1000)]" "()"] by simp
  with user_pmp_typed [OF cfg] show ?thesis by (auto simp: PMP_COUNT_def)
qed

section \<open>Spawning a user task\<close>

lemma stack_encodable:
  assumes "8192 dvd unat p"
  shows "encodable (p, 8192)"
proof -
  have "unat (p AND (2 ^ 13 - 1)) = 0" using unat_and_low [of 13 p] assms by simp
  then have "p AND 8191 = 0" by (simp add: unat_eq_0)
  then show ?thesis by (simp add: encodable_def is_power_of_two_def)
qed

lemma stack_block:
  assumes "heap_ok a" "fits stack_layout a"
  obtains p a' where "alloc [] stack_layout a = (p, a')" "p \<noteq> 0" "8192 dvd unat p"
    "unat (next_ptr a) \<le> unat p" "unat p + 8192 \<le> unat (heap_end a)"
    "a' = a\<lparr>next_ptr := p + 8192\<rparr>"
proof -
  obtain p a' where al: "alloc [] stack_layout a = (p, a')" by (cases "alloc [] stack_layout a")
  note f = alloc_fits [OF assms(1) stack_layout_ok(1) assms(2) al]
  note b = block_start_props [OF assms(1) stack_layout_ok(1)]
  have sz: "unat (layout_size stack_layout) = 8192" "unat (layout_align stack_layout) = 8192"
    by (simp_all add: stack_layout_def)
  have fit: "unat p + 8192 \<le> unat (heap_end a)" using assms(2) f(1) sz by (simp add: fits_def)
  have "unat (p + 8192) = unat p + 8192"
    using fit assms(1) by (simp add: unat_plus_simple [THEN iffD1] heap_ok_def word_le_nat_alt unat_word_ariths)
  with f(3) sz have "next_ptr a' = p + 8192" by (simp add: word_unat_eq_iff)
  with f(2) have "a' = a\<lparr>next_ptr := p + 8192\<rparr>" by metis
  moreover have "p \<noteq> 0" using f(1) b(3) by auto
  ultimately show ?thesis using that [OF al] f(1) b sz fit by simp
qed

definition user_task_of :: "nat \<Rightarrow> u64 \<Rightarrow> u64 \<times> u64 \<Rightarrow> (u64 \<times> u64) list \<Rightarrow> u64 \<Rightarrow> Task" where
  "user_task_of i e code regs p = \<lparr>task_id = TaskId (of_nat i), task_state = Created,
     task_context = TaskContext_new_umode e (p + 8192),
     pmp_config = build (built (user_regions code p regs)),
     stack_bottom = p, stack_top = p + 8192, entry_point = e\<rparr>"

lemma length_built: "length rs \<le> 12 \<Longrightarrow> length (b_regions (built rs)) = 16"
  by (simp add: built_def)

lemma create_task_run:
  assumes "first_free (SCHEDULER k) = Some i" "length regs = 16"
  shows "create_task e st_top regs k = Return (TaskId (of_nat i))
    (k\<lparr>SCHEDULER := (SCHEDULER k)\<lparr>tasks := (tasks (SCHEDULER k))[i := Some
      ((Task_new (TaskId (of_nat i)) e st_top)\<lparr>pmp_config := \<lparr>cfg_regions = regs\<rparr>\<rparr>)]\<rparr>\<rparr>)"
proof -
  have "cfg_regions (pmp_config (Task_new (TaskId (of_nat i)) e st_top)) = replicate 16 null_region"
    by (simp add: Task_new_def PmpConfig_empty_def PMP_COUNT_def null_region_def)
  then have regs: "copy_regions regs (cfg_regions (pmp_config (Task_new (TaskId (of_nat i)) e st_top))) = regs"
    using assms(2) by (simp add: copy_regions_eq)
  have "create_task e st_top regs k = with_lock (on_cell SCHEDULER set_SCHEDULER (\<lambda>st.
      (TaskId (of_nat i), st\<lparr>tasks := (tasks st)[i := Some
      ((Task_new (TaskId (of_nat i)) e st_top)\<lparr>pmp_config := \<lparr>cfg_regions = regs\<rparr>\<rparr>)]\<rparr>))) k"
    using assms(1) regs
    by (simp add: create_task_def with_lock_eq on_cell_def bind_comp_def gets_def Let_def)
  then show ?thesis by (simp add: cell.with_lock_on_cell)
qed

definition machine_task_of :: "nat \<Rightarrow> u64 \<Rightarrow> u64 \<Rightarrow> Task" where
  "machine_task_of i e p = \<lparr>task_id = TaskId (of_nat i), task_state = Created,
     task_context = TaskContext_new_mmode e (p + 8192), pmp_config = PmpConfig_empty,
     stack_bottom = p, stack_top = p + 8192, entry_point = e\<rparr>"

lemma create_task_mmode_run:
  assumes "first_free (SCHEDULER k) = Some i"
  shows "create_task_mmode e (p + 8192) k = Return (TaskId (of_nat i))
    (k\<lparr>SCHEDULER := (SCHEDULER k)\<lparr>tasks := (tasks (SCHEDULER k))[i := Some (machine_task_of i e p)]\<rparr>\<rparr>)"
proof -
  have "create_task_mmode e (p + 8192) k = with_lock (on_cell SCHEDULER set_SCHEDULER (\<lambda>st.
      (TaskId (of_nat i), st\<lparr>tasks := (tasks st)[i := Some (machine_task_of i e p)]\<rparr>))) k"
    using assms
    by (simp add: create_task_mmode_def with_lock_eq on_cell_def bind_comp_def gets_def Let_def
        machine_task_of_def Task_new_def TASK_STACK_SIZE_def)
  then show ?thesis by (simp add: cell.with_lock_on_cell)
qed

lemma create_full:
  assumes "first_free (SCHEDULER k) = None"
  shows "create_task_mmode e st_top k = Panic \<lparr>panic_message = ''task table full'',
      panic_file = ''crates/kernel/src/sched/scheduler.rs'', panic_line = 163\<rparr>
      (k\<lparr>mstatus_csr := mstatus_csr k AND NOT 8\<rparr>)"
    and "create_task e st_top regs k = Panic \<lparr>panic_message = ''task table full'',
      panic_file = ''crates/kernel/src/sched/scheduler.rs'', panic_line = 145\<rparr>
      (k\<lparr>mstatus_csr := mstatus_csr k AND NOT 8\<rparr>)"
  using assms
  by (simp_all add: create_task_mmode_def create_task_def with_lock_eq bind_comp_def gets_def panic_at_def)

text \<open>The block a spawned task gets for its stack.\<close>

definition stack_of :: "BumpAllocator \<Rightarrow> u64" where
  "stack_of a = fst (alloc [] stack_layout a)"

lemma stack_of_props:
  assumes "heap_ok a" "fits stack_layout a"
  shows "stack_of a \<noteq> 0" "8192 dvd unat (stack_of a)" "unat (next_ptr a) \<le> unat (stack_of a)"
    "unat (stack_of a) + 8192 \<le> unat (heap_end a)"
    "alloc [] stack_layout a = (stack_of a, a\<lparr>next_ptr := stack_of a + 8192\<rparr>)"
proof -
  obtain p a' where "alloc [] stack_layout a = (p, a')" "p \<noteq> 0" "8192 dvd unat p"
    "unat (next_ptr a) \<le> unat p" "unat p + 8192 \<le> unat (heap_end a)" "a' = a\<lparr>next_ptr := p + 8192\<rparr>"
    by (rule stack_block [OF assms])
  then show "stack_of a \<noteq> 0" "8192 dvd unat (stack_of a)" "unat (next_ptr a) \<le> unat (stack_of a)"
    "unat (stack_of a) + 8192 \<le> unat (heap_end a)"
    "alloc [] stack_layout a = (stack_of a, a\<lparr>next_ptr := stack_of a + 8192\<rparr>)"
    by (simp_all add: stack_of_def)
qed

lemma spawn_user_run:
  assumes heap: "heap_ok (ALLOCATOR k)" "fits stack_layout (ALLOCATOR k)"
    and free: "first_free (SCHEDULER k) = Some i"
    and regs: "encodable code" "list_all encodable regs" "length regs \<le> 10"
  shows "spawn (TaskSpec_user e (fst code) (snd code) regs) k = Return (TaskId (of_nat i))
      (k\<lparr>ALLOCATOR := (ALLOCATOR k)\<lparr>next_ptr := stack_of (ALLOCATOR k) + 8192\<rparr>,
         SCHEDULER := (SCHEDULER k)\<lparr>tasks := (tasks (SCHEDULER k))
           [i := Some (user_task_of i e code regs (stack_of (ALLOCATOR k)))]\<rparr>\<rparr>)"
proof -
  let ?p = "stack_of (ALLOCATOR k)"
  note p = stack_of_props [OF heap]
  let ?k = "k\<lparr>ALLOCATOR := (ALLOCATOR k)\<lparr>next_ptr := ?p + 8192\<rparr>\<rparr>"
  let ?rs = "b_regions (built (user_regions code ?p regs))"
  have stack: "alloc_task_stack k = Return (?p, ?p + 8192) ?k"
    using p(1,5) by (simp add: alloc_task_stack_run)
  have pmp: "user_pmp (fst code) (snd code) regs ?p ?k = Return (build (built (user_regions code ?p regs))) ?k"
    using user_pmp_built [OF regs(1) stack_encodable [OF p(2)] regs(2,3)] .
  have len: "length ?rs = 16" using regs(3) by (intro length_built) (simp add: user_regions_def)
  have "first_free (SCHEDULER ?k) = Some i" using free by simp
  from create_task_run [OF this len, of e "?p + 8192"]
  have "create_task e (?p + 8192) ?rs ?k = Return (TaskId (of_nat i))
      (?k\<lparr>SCHEDULER := (SCHEDULER k)\<lparr>tasks := (tasks (SCHEDULER k))[i := Some (user_task_of i e code regs ?p)]\<rparr>\<rparr>)"
    by (simp add: user_task_of_def Task_new_def build_def TASK_STACK_SIZE_def)
  with stack pmp show ?thesis
    by (simp add: spawn_def TaskSpec_user_def bind_comp_def build_def)
qed

lemma spawn_machine_run:
  assumes heap: "heap_ok (ALLOCATOR k)" "fits stack_layout (ALLOCATOR k)"
    and free: "first_free (SCHEDULER k) = Some i"
  shows "spawn (TaskSpec_machine e) k = Return (TaskId (of_nat i))
      (k\<lparr>ALLOCATOR := (ALLOCATOR k)\<lparr>next_ptr := stack_of (ALLOCATOR k) + 8192\<rparr>,
         SCHEDULER := (SCHEDULER k)\<lparr>tasks := (tasks (SCHEDULER k))
           [i := Some (machine_task_of i e (stack_of (ALLOCATOR k)))]\<rparr>\<rparr>)"
proof -
  let ?p = "stack_of (ALLOCATOR k)"
  let ?k = "k\<lparr>ALLOCATOR := (ALLOCATOR k)\<lparr>next_ptr := ?p + 8192\<rparr>\<rparr>"
  have stack: "alloc_task_stack k = Return (?p, ?p + 8192) ?k"
    using stack_of_props(1,5) [OF heap] by (simp add: alloc_task_stack_run)
  have "first_free (SCHEDULER ?k) = Some i" using free by simp
  from create_task_mmode_run [OF this, of e ?p] stack show ?thesis
    by (simp add: spawn_def TaskSpec_machine_def bind_comp_def)
qed

text \<open>
  C24: Spawning a user task whose code and MMIO regions are encodable, with a free slot and room
  on the heap, returns the number of the first free slot and fills exactly that slot: the task
  starts in the created state at its entry point with the stack pointer at the top of a fresh
  8 KiB block, and its regions are its code (read, execute), exactly that block (read, write)
  and its MMIO ranges (read, write) from entry 4 on. The block is aligned, lies between the
  allocator's old mark and the end of the heap, and the mark moves to its end.
\<close>

theorem spawn_user_correct:
  assumes inv: "sched_inv k" and heap: "heap_ok (ALLOCATOR k)" "fits stack_layout (ALLOCATOR k)"
    and free: "first_free (SCHEDULER k) = Some i"
    and regs: "encodable code" "list_all encodable regs" "length regs \<le> 10"
  shows "\<exists>p. spawn (TaskSpec_user e (fst code) (snd code) regs) k = Return (TaskId (of_nat i))
      (k\<lparr>ALLOCATOR := (ALLOCATOR k)\<lparr>next_ptr := p + 8192\<rparr>,
         SCHEDULER := (SCHEDULER k)\<lparr>tasks := (tasks (SCHEDULER k))[i := Some (user_task_of i e code regs p)]\<rparr>\<rparr>) \<and>
    8192 dvd unat p \<and> unat (next_ptr (ALLOCATOR k)) \<le> unat p \<and>
    unat p + 8192 \<le> unat (heap_end (ALLOCATOR k))"
  using spawn_user_run [OF heap free regs] stack_of_props [OF heap] by blast

text \<open>A kernel before any task was spawned, with the board's heap.\<close>

definition fresh_kernel :: kernel where
  "fresh_kernel = (example_kernel [])\<lparr>SCHEDULER := SCHEDULER_init,
     ALLOCATOR := BumpAllocator_init (sym_sheap linker_example) (sym_eheap linker_example) BumpAllocator_new\<rparr>"

lemma fresh_kernel_ok:
  "sched_inv fresh_kernel" "heap_ok (ALLOCATOR fresh_kernel)" "fits stack_layout (ALLOCATOR fresh_kernel)"
  "first_free (SCHEDULER fresh_kernel) = Some 0"
proof -
  have four: "[0..<MAX_TASKS] = [0, 1, 2, 3]" "MAX_TASKS = 4" by (simp_all add: MAX_TASKS_def upt_rec)
  show "sched_inv fresh_kernel"
    using four by (simp add: fresh_kernel_def SCHEDULER_init_def sched_ok_def current_in_range_def slot_ok_def)
  show "first_free (SCHEDULER fresh_kernel) = Some 0"
    using four by (simp add: fresh_kernel_def SCHEDULER_init_def first_free_def)
  show "heap_ok (ALLOCATOR fresh_kernel)"
    by (simp add: fresh_kernel_def BumpAllocator_init_def heap_ok_def linker_example_def)
  show "fits stack_layout (ALLOCATOR fresh_kernel)"
    by (simp add: fresh_kernel_def BumpAllocator_init_def fits_def block_start_def round_up_def
        stack_layout_def linker_example_def)
qed

lemma uart_page_encodable: "encodable (0x10000000, 0x1000)" "encodable (0x80008000, 0x1000)"
  by (simp_all add: encodable_def is_power_of_two_def)

theorem spawn_user_correct_witness:
  "\<exists>p k'. spawn (TaskSpec_user 0x80008000 0x80008000 0x1000 [(0x10000000, 0x1000)]) fresh_kernel =
     Return (TaskId 0) k' \<and> 8192 dvd unat (p :: u64) \<and>
     tasks (SCHEDULER k') ! 0 = Some (user_task_of 0 0x80008000 (0x80008000, 0x1000) [(0x10000000, 0x1000)] p)"
  using spawn_user_correct [OF fresh_kernel_ok uart_page_encodable(2), of "[(0x10000000, 0x1000)]" "0x80008000"]
    uart_page_encodable(1)
  by (auto simp: fresh_kernel_def SCHEDULER_init_def)



end
