(* ===== verification/Timer.thy ===== *)
theory Timer
  imports Kernel_State
begin

text \<open>
  The CLINT timer driver, \<open>crates/kernel/src/timer.rs\<close>. A read of \<open>mtime\<close> shows the
  counter's value at that moment; the arithmetic wraps around as in the release build.
\<close>

section \<open>The driver\<close>

definition read_mtime :: "('a hart_scheme, u64) comp" where
  "read_mtime = bind_comp (gets mtime) (\<lambda>v.
     then_comp (modify (\<lambda>h. h\<lparr>mmio_trace := mmio_trace h @ [MmioRead64 (CLINT_BASE + MTIME_OFFSET) v]\<rparr>))
       (ret v))"

definition write_mtimecmp :: "u64 \<Rightarrow> ('a hart_scheme, unit) comp" where
  "write_mtimecmp val = modify (\<lambda>h. h\<lparr>mtimecmp := val,
     mmio_trace := mmio_trace h @ [MmioWrite64 (CLINT_BASE + MTIMECMP_OFFSET) val]\<rparr>)"

definition enable_timer_interrupt :: "('a hart_scheme, unit) comp" where
  "enable_timer_interrupt = mie_enable_timer"

definition disable_timer_interrupt :: "('a hart_scheme, unit) comp" where
  "disable_timer_interrupt = mie_disable_timer"

definition enable_interrupts :: "('a hart_scheme, unit) comp" where
  "enable_interrupts = mstatus_set_bits MIE"

definition disable_interrupts :: "('a hart_scheme, unit) comp" where
  "disable_interrupts = mstatus_clear_bits MIE"

definition us_to_ticks :: "u64 \<Rightarrow> u64" where
  "us_to_ticks us = (us * TIMER_FREQ_HZ) div 1000000"

definition set_timer_us :: "u64 \<Rightarrow> ('a hart_scheme, unit) comp" where
  "set_timer_us delta_us = bind_comp read_mtime (\<lambda>cur.
     let delta_ticks = us_to_ticks delta_us in write_mtimecmp (cur + delta_ticks))"

definition clear_timer :: "('a hart_scheme, unit) comp" where
  "clear_timer = write_mtimecmp (- 1)"

definition schedule_next_tick :: "('a hart_scheme, unit) comp" where
  "schedule_next_tick = set_timer_us TICK_INTERVAL_US"

definition get_tick_count :: "('a kernel_scheme, u64) comp" where
  "get_tick_count = gets (\<lambda>k. AtomicCounter_get (TICK_COUNT k))"

definition increment_tick :: "('a kernel_scheme, unit) comp" where
  "increment_tick = modify (\<lambda>k. k\<lparr>TICK_COUNT := snd (AtomicCounter_increment (TICK_COUNT k))\<rparr>)"

definition timer_init :: "('a hart_scheme, unit) comp" where
  "timer_init = block [
     clear_timer,
     enable_timer_interrupt,
     set_timer_us TICK_INTERVAL_US,
     println [''[timer] CLINT initialized, tick='', fmt_dec (TICK_INTERVAL_US div 1000), ''ms'']]"

section \<open>Running the driver\<close>

lemma us_to_ticks_tick: "us_to_ticks TICK_INTERVAL_US = 100000"
  by (simp add: us_to_ticks_def TIMER_FREQ_HZ_def TICK_INTERVAL_US_def)

lemma set_timer_run:
  "set_timer_us d h = Return () (h\<lparr>mtimecmp := mtime h + us_to_ticks d,
     mmio_trace := mmio_trace h @ [MmioRead64 (CLINT_BASE + MTIME_OFFSET) (mtime h),
       MmioWrite64 (CLINT_BASE + MTIMECMP_OFFSET) (mtime h + us_to_ticks d)]\<rparr>)"
  by (simp add: set_timer_us_def read_mtime_def write_mtimecmp_def bind_comp_def then_comp_def
      gets_def modify_def ret_def Let_def)

lemmas schedule_next_tick_run =
  set_timer_run [of TICK_INTERVAL_US, folded schedule_next_tick_def, unfolded us_to_ticks_tick]

lemma tick_runs:
  "increment_tick k = Return () (k\<lparr>TICK_COUNT := \<lparr>inner = inner (TICK_COUNT k) + 1\<rparr>\<rparr>)"
  "get_tick_count k = Return (inner (TICK_COUNT k)) k"
  by (simp_all add: increment_tick_def get_tick_count_def modify_def gets_def AtomicCounter_get_def
      AtomicCounter_increment_def)

text \<open>The interrupt is pending while the counter has reached the comparator.\<close>

definition timer_pending :: "'a hart_scheme \<Rightarrow> bool" where
  "timer_pending h \<longleftrightarrow> mtimecmp h \<le> mtime h"

section \<open>Properties\<close>

text \<open>
  C31: Microseconds are converted exactly, ten ticks each, as long as the product of the argument
  and the frequency fits in 64 bits; at the first argument where it does not, the wrapped
  result is smaller than the argument.
\<close>

theorem us_to_ticks_exact:
  "(unat us \<le> 1844674407370 \<longrightarrow> unat (us_to_ticks us) = 10 * unat us) \<and>
   us_to_ticks 1844674407371 < 1844674407371"
proof (intro conjI impI)
  assume "unat us \<le> 1844674407370"
  then have "unat us * 10000000 < 2 ^ 64" by simp
  then have "unat (us * TIMER_FREQ_HZ) = unat us * 10000000"
    by (simp add: TIMER_FREQ_HZ_def unat_word_ariths)
  then show "unat (us_to_ticks us) = 10 * unat us" by (simp add: us_to_ticks_def unat_div)
next
  show "us_to_ticks 1844674407371 < 1844674407371"
    by (simp add: us_to_ticks_def TIMER_FREQ_HZ_def)
qed

theorem us_to_ticks_exact_witness: "unat (us_to_ticks 1844674407370) = 18446744073700"
  using us_to_ticks_exact [of 1844674407370] by simp

text \<open>
  C30: Re-arming the timer always returns, sets the comparator 100000 ticks (10 ms) after the
  counter, and so leaves no interrupt pending until the counter has advanced that far; only
  within the last 100000 values before the counter wraps does the comparator wrap too, and then
  the interrupt is pending at once.
\<close>

theorem schedule_next_tick_rearms:
  "\<exists>h'. schedule_next_tick h = Return () h' \<and> mtime h' = mtime h \<and>
     mtimecmp h' = mtime h + 100000 \<and>
     (\<forall>d. unat (mtime h) + unat d < 2 ^ 64 - 100000 \<longrightarrow>
        timer_pending (h'\<lparr>mtime := mtime h' + d\<rparr>) = (100000 \<le> d)) \<and>
     (2 ^ 64 - 100000 \<le> unat (mtime h) \<longrightarrow> timer_pending h')"
proof -
  let ?h = "h\<lparr>mtimecmp := mtime h + 100000,
     mmio_trace := mmio_trace h @ [MmioRead64 (CLINT_BASE + MTIME_OFFSET) (mtime h),
       MmioWrite64 (CLINT_BASE + MTIMECMP_OFFSET) (mtime h + 100000)]\<rparr>"
  have "timer_pending (?h\<lparr>mtime := mtime ?h + d\<rparr>) = (100000 \<le> d)"
    if "unat (mtime h) + unat d < 2 ^ 64 - 100000" for d
  proof -
    have "unat (mtime h + d) = unat (mtime h) + unat d"
      "unat (mtime h + 100000) = unat (mtime h) + 100000"
      using that by (simp_all add: unat_word_ariths)
    then show ?thesis by (simp add: timer_pending_def word_le_nat_alt)
  qed
  moreover have "timer_pending ?h" if "2 ^ 64 - 100000 \<le> unat (mtime h)"
  proof -
    have "unat (mtime h) < 2 ^ 64" using unsigned_less [of "mtime h"] by simp
    then have "unat (mtime h + 100000) = unat (mtime h) + 100000 - 2 ^ 64"
      using that by (simp add: unat_word_ariths mod_if)
    then show ?thesis
      using that \<open>unat (mtime h) < 2 ^ 64\<close> by (simp add: timer_pending_def word_le_nat_alt)
  qed
  ultimately show ?thesis by (intro exI [of _ ?h]) (simp add: schedule_next_tick_run)
qed

theorem schedule_next_tick_rearms_witness:
  "\<exists>h'. schedule_next_tick (reset_hart []) = Return () h' \<and> mtimecmp h' = 100000 \<and>
     \<not> timer_pending (h'\<lparr>mtime := 99999\<rparr>) \<and> timer_pending (h'\<lparr>mtime := 100000\<rparr>)"
proof -
  have t: "mtime (reset_hart []) = 0" by (simp add: reset_hart_def)
  obtain h' where h': "schedule_next_tick (reset_hart []) = Return () h'" "mtime h' = 0"
    "mtimecmp h' = 100000"
    "\<forall>d. unat d < 2 ^ 64 - 100000 \<longrightarrow> timer_pending (h'\<lparr>mtime := mtime h' + d\<rparr>) = (100000 \<le> d)"
    using schedule_next_tick_rearms [of "reset_hart []"] t by auto
  have "timer_pending (h'\<lparr>mtime := 100000\<rparr>)" "\<not> timer_pending (h'\<lparr>mtime := 99999\<rparr>)"
    using h'(4) [rule_format, of 100000] h'(4) [rule_format, of 99999] h'(2) by simp_all
  with h' show ?thesis by blast
qed

end
