(* ===== verification/Trap.thy ===== *)
theory Trap
  imports Timer Scheduler
begin

text \<open>
  Trap handling, \<open>crates/kernel/src/trap.rs\<close>: the handlers that \<open>trap_vector\<close> calls with the
  saved frame (the assembly itself is in theory \<open>Trap_Asm\<close>). A handler takes the frame and
  hands it back; \<open>panic!\<close> ends it in \<open>Panic\<close> after what it has printed.
\<close>

section \<open>Causes\<close>

datatype Exception = InstructionMisaligned | InstructionAccessFault | IllegalInstruction | Breakpoint
  | LoadMisaligned | LoadAccessFault | StoreMisaligned | StoreAccessFault | EcallFromU | EcallFromS
  | EcallFromM | InstructionPageFault | LoadPageFault | StorePageFault

datatype Interrupt = SupervisorSoftware | MachineSoftware | SupervisorTimer | MachineTimer
  | SupervisorExternal | MachineExternal

text \<open>The discriminants of the two enums.\<close>

primrec exception_code :: "Exception \<Rightarrow> u64" where
  "exception_code InstructionMisaligned = 0"
| "exception_code InstructionAccessFault = 1"
| "exception_code IllegalInstruction = 2"
| "exception_code Breakpoint = 3"
| "exception_code LoadMisaligned = 4"
| "exception_code LoadAccessFault = 5"
| "exception_code StoreMisaligned = 6"
| "exception_code StoreAccessFault = 7"
| "exception_code EcallFromU = 8"
| "exception_code EcallFromS = 9"
| "exception_code EcallFromM = 11"
| "exception_code InstructionPageFault = 12"
| "exception_code LoadPageFault = 13"
| "exception_code StorePageFault = 15"

primrec interrupt_code :: "Interrupt \<Rightarrow> u64" where
  "interrupt_code SupervisorSoftware = 1"
| "interrupt_code MachineSoftware = 3"
| "interrupt_code SupervisorTimer = 5"
| "interrupt_code MachineTimer = 7"
| "interrupt_code SupervisorExternal = 9"
| "interrupt_code MachineExternal = 11"

section \<open>CSR wrappers and initialisation\<close>

definition read_mcause :: "('a hart_scheme, u64) comp" where
  "read_mcause = mcause_read"

definition read_mepc :: "('a hart_scheme, u64) comp" where
  "read_mepc = mepc_read"

definition write_mepc :: "u64 \<Rightarrow> ('a hart_scheme, unit) comp" where
  "write_mepc val = mepc_write val"

definition read_mtval :: "('a hart_scheme, u64) comp" where
  "read_mtval = mtval_read"

definition read_mpp :: "('a hart_scheme, u64) comp" where
  "read_mpp = mstatus_read_mpp"

text \<open>The address of \<open>trap_vector\<close> is the linker's choice.\<close>

definition trap_init :: "u64 \<Rightarrow> ('a hart_scheme, unit) comp" where
  "trap_init trap_addr = block [mtvec_write trap_addr, println [''[trap] mtvec initialized'']]"

section \<open>Handlers\<close>

definition panic_exception :: "string \<Rightarrow> u64 \<Rightarrow> u64 \<Rightarrow> ('a hart_scheme, 'b) comp" where
  "panic_exception name me mt =
     then_comp (println [''[trap] FATAL: '', name, newline @ ''  mepc:  '', fmt_hex me,
       newline @ ''  mtval: '', fmt_hex mt])
     (panic_at ''crates/kernel/src/trap.rs'' 355 name)"

definition handle_interrupt :: "u64 \<Rightarrow> TrapFrame \<Rightarrow> ('a kernel_scheme, TrapFrame) comp" where
  "handle_interrupt cause frame =
     (if cause = 7 then
        then_comp increment_tick
        (bind_comp get_tick_count (\<lambda>ticks.
         then_comp (if ticks mod 100 = 0 then println [''[timer] tick '', fmt_dec ticks] else skip)
         (then_comp schedule_next_tick
         (schedule frame))))
      else if cause = 11 then then_comp (println [''[trap] External interrupt'']) (ret frame)
      else if cause = 3 then then_comp (println [''[trap] Software interrupt'']) (ret frame)
      else then_comp (println [''[trap] Unknown interrupt: '', fmt_dec cause]) (ret frame))"

definition handle_access_fault ::
  "string \<Rightarrow> u64 \<Rightarrow> u64 \<Rightarrow> TrapFrame \<Rightarrow> ('a kernel_scheme, TrapFrame) comp"
where
  "handle_access_fault name me mt frame =
     bind_comp read_mpp (\<lambda>mpp.
     if mpp = 0 then
       then_comp (println [''[trap] U-mode access fault: '', name, '' at mepc='', fmt_hex me,
         '' addr='', fmt_hex mt])
       (kill_current frame)
     else panic_exception name me mt)"

definition handle_syscall :: "TrapFrame \<Rightarrow> ('a hart_scheme, TrapFrame) comp" where
  "handle_syscall frame =
     (if a7 frame = SYS_GETC then
        bind_comp try_getc (\<lambda>r.
        ret (frame\<lparr>a0 := ucast (case r of None \<Rightarrow> 0xFF | Some b \<Rightarrow> b)\<rparr>))
      else if a7 frame = SYS_PUTC then then_comp (putc (ucast (a0 frame))) (ret frame)
      else if a7 frame = SYS_LEGACY_POC then
        then_comp (println [''[trap] U-mode POC ecall (legacy)'']) (ret frame)
      else then_comp (println [''[syscall] unknown: '', fmt_dec (a7 frame)]) (ret frame))"

definition handle_exception ::
  "u64 \<Rightarrow> u64 \<Rightarrow> u64 \<Rightarrow> TrapFrame \<Rightarrow> ('a kernel_scheme, TrapFrame) comp"
where
  "handle_exception cause me mt frame =
     (if cause = 0 then panic_exception ''Instruction address misaligned'' me mt
      else if cause = 1 then handle_access_fault ''Instruction access fault'' me mt frame
      else if cause = 2 then panic_exception ''Illegal instruction'' me mt
      else if cause = 3 then
        then_comp (println [''[trap] Breakpoint at '', fmt_hex me])
        (then_comp (write_mepc (me + 4)) (ret frame))
      else if cause = 4 then panic_exception ''Load address misaligned'' me mt
      else if cause = 5 then handle_access_fault ''Load access fault'' me mt frame
      else if cause = 6 then panic_exception ''Store address misaligned'' me mt
      else if cause = 7 then handle_access_fault ''Store access fault'' me mt frame
      else if cause = 8 then
        bind_comp (handle_syscall frame) (\<lambda>frame'.
        then_comp (write_mepc (me + 4)) (ret frame'))
      else if cause = 9 then
        then_comp (println [''[trap] Ecall from S-mode'']) (then_comp (write_mepc (me + 4)) (ret frame))
      else if cause = 11 then
        then_comp (println [''[trap] Ecall from M-mode'']) (then_comp (write_mepc (me + 4)) (ret frame))
      else if cause = 12 then panic_exception ''Instruction page fault'' me mt
      else if cause = 13 then panic_exception ''Load page fault'' me mt
      else if cause = 15 then panic_exception ''Store page fault'' me mt
      else then_comp (println [''[trap] Unknown exception: '', fmt_dec cause, '' at '', fmt_hex me])
        (panic_at ''crates/kernel/src/trap.rs'' 342 ''Unhandled exception''))"

definition trap_handler :: "TrapFrame \<Rightarrow> ('a kernel_scheme, TrapFrame) comp" where
  "trap_handler frame =
     bind_comp read_mcause (\<lambda>cause.
     bind_comp read_mepc (\<lambda>me.
     bind_comp read_mtval (\<lambda>mt.
     let is_interrupt = (drop_bit 63 cause AND 1 = 1);
         cause_code = cause AND 0x7FFFFFFFFFFFFFFF
     in if is_interrupt then handle_interrupt cause_code frame
        else handle_exception cause_code me mt frame)))"

end
