(* ===== verification/Kernel_Invariant.thy ===== *)
theory Kernel_Invariant
  imports Spawning Trap
begin

text \<open>
  The invariant of the running kernel, over the task table and the PMP registers together, and
  that every handler of \<open>crates/kernel/src/trap.rs\<close> preserves it.
\<close>

section \<open>The kernel's invariant\<close>

text \<open>
  Besides a consistent task table: the kernel's PMP entries are in place, no switchable entry is
  locked, and the switchable entries hold the regions of the current task.
\<close>

definition current_regions :: "SchedulerState \<Rightarrow> PmpRegion list option" where
  "current_regions st = (case current st of
      None \<Rightarrow> None
    | Some c \<Rightarrow> map_option (\<lambda>t. cfg_regions (pmp_config t)) (tasks st ! c))"

definition current_loaded :: "'a kernel_scheme \<Rightarrow> bool" where
  "current_loaded k = (case current_regions (SCHEDULER k) of
      None \<Rightarrow> True
    | Some regs \<Rightarrow> regions_loaded regs k)"

definition kernel_inv :: "linker_symbols \<Rightarrow> 'a kernel_scheme \<Rightarrow> bool" where
  "kernel_inv L k \<longleftrightarrow> sched_inv k \<and> kernel_entries L k \<and> task_entries_unlocked k \<and> current_loaded k"

text \<open>The invariant does not see the console, the interrupted program's CSRs or the timer.\<close>

lemma current_regions_save [simp]:
  "sched_ok n st \<Longrightarrow> current_regions (save_current frame me ms st) = current_regions st"
  by (auto simp: current_regions_def save_current_def save_task_def current_in_range_def sched_ok_def
      split: option.splits)

lemma regions_loaded_frame:
  assumes "pmpcfg0_csr h' = pmpcfg0_csr h" "pmpcfg2_csr h' = pmpcfg2_csr h" "pmpaddr_csr h' = pmpaddr_csr h"
  shows "regions_loaded regs h' = regions_loaded regs h" "kernel_entries L h' = kernel_entries L h"
    "task_entries_unlocked h' = task_entries_unlocked h"
  using assms
  by (simp_all add: regions_loaded_def kernel_entries_def task_entries_unlocked_def entry_cfg_def entry_addr_def)

lemma kernel_inv_frame:
  assumes "pmpcfg0_csr k' = pmpcfg0_csr k" "pmpcfg2_csr k' = pmpcfg2_csr k" "pmpaddr_csr k' = pmpaddr_csr k"
    and "SCHEDULER k' = SCHEDULER k"
  shows "kernel_inv L k' = kernel_inv L k"
  using regions_loaded_frame [OF assms(1-3)] assms(4)
  by (simp add: kernel_inv_def current_loaded_def split: option.splits)

lemma kernel_inv_table:
  assumes "kernel_inv L k" "sched_ok MAX_TASKS st" "current_regions st = current_regions (SCHEDULER k)"
  shows "kernel_inv L (k\<lparr>SCHEDULER := st\<rparr>)"
  using assms regions_loaded_frame [of "k\<lparr>SCHEDULER := st\<rparr>" k]
  by (simp add: kernel_inv_def current_loaded_def split: option.splits)

lemma preserves_console: "console_only m \<Longrightarrow> preserves (kernel_inv L) m"
proof (unfold preserves_def, intro allI impI)
  fix k a k'
  assume "console_only m" "kernel_inv L k" "m k = Return a k'"
  then have "console_step k k'" by (auto simp: console_only_def dest: spec [of _ k])
  then have "kernel_inv L k' = kernel_inv L k"
    by (intro kernel_inv_frame) (auto simp: console_step_def)
  with \<open>kernel_inv L k\<close> show "kernel_inv L k'" by simp
qed

lemma kernel_inv_updates [simp]:
  "kernel_inv L (k\<lparr>mepc_csr := v\<rparr>) = kernel_inv L k"
  "kernel_inv L (k\<lparr>mstatus_csr := v\<rparr>) = kernel_inv L k"
  "kernel_inv L (k\<lparr>mcause_csr := v\<rparr>) = kernel_inv L k"
  "kernel_inv L (k\<lparr>mtval_csr := v\<rparr>) = kernel_inv L k"
  "kernel_inv L (k\<lparr>mtvec_csr := v\<rparr>) = kernel_inv L k"
  "kernel_inv L (k\<lparr>mie_csr := v\<rparr>) = kernel_inv L k"
  "kernel_inv L (k\<lparr>mtime := v\<rparr>) = kernel_inv L k"
  "kernel_inv L (k\<lparr>mtimecmp := v\<rparr>) = kernel_inv L k"
  "kernel_inv L (k\<lparr>uart_in := vs\<rparr>) = kernel_inv L k"
  "kernel_inv L (k\<lparr>mmio_trace := tr\<rparr>) = kernel_inv L k"
  "kernel_inv L (k\<lparr>TICK_COUNT := c\<rparr>) = kernel_inv L k"
  "kernel_inv L (k\<lparr>ALLOCATOR := al\<rparr>) = kernel_inv L k"
  by (rule kernel_inv_frame; simp)+

lemma preserves_csr:
  "preserves (kernel_inv L) (mepc_write v)" "preserves (kernel_inv L) (mstatus_write v)"
  "preserves (kernel_inv L) increment_tick" "preserves (kernel_inv L) schedule_next_tick"
  by (auto simp: preserves_def csr_write_runs tick_runs schedule_next_tick_run)

lemma preserves_reads:
  "preserves P mepc_read" "preserves P mstatus_read" "preserves P mcause_read" "preserves P mtval_read"
  "preserves P mstatus_read_mpp" "preserves P get_tick_count"
  by (rule preserves_state, simp add: csr_read_runs tick_runs)+

section \<open>Every handler preserves it\<close>

lemma task_cfg_unlocked: "list_all region_ok regs \<Longrightarrow> \<not> locked (task_cfg regs j)"
  using region_at_ok [of regs j] by (simp add: task_cfg_def region_ok_def locked_or_napot)

text \<open>A switch to a task of the table loads its regions.\<close>

lemma apply_switch_kernel_inv:
  fixes k :: "'a kernel_scheme"
  assumes inv: "kernel_inv L k0" and k: "pmpcfg0_csr k = pmpcfg0_csr k0" "pmpcfg2_csr k = pmpcfg2_csr k0"
      "pmpaddr_csr k = pmpaddr_csr k0"
    and i: "i < 4" and ok: "list_all region_ok regs" and cur: "current_regions (SCHEDULER k) = Some regs"
    and sched: "sched_inv k" and ret: "apply_switch i regs c frame k = Return frame' k'"
  shows "kernel_inv L k'"
proof -
  have same: "entry_cfg k j = entry_cfg k0 j" "entry_addr k j = entry_addr k0 j" for j
    using k by (simp_all add: entry_cfg_def entry_addr_def)
  have pmp: "length (pmpaddr_csr k) = 16" "task_entries_unlocked k"
    using inv k same by (simp_all add: kernel_inv_def kernel_entries_def task_entries_unlocked_def)
  have "length (switch_message i) \<le> tx_budget k"
    using apply_switch_hang [OF i, of k regs c frame] ret by (metis outcome.distinct(3))
  then obtain k1 vs tr c0 c2 pa where run: "apply_switch i regs c frame k = Return (frame_of c) k1"
    and k1: "k1 = k\<lparr>uart_in := vs, mmio_trace := mmio_trace k @ tr, pmpcfg0_csr := c0, pmpcfg2_csr := c2,
       pmpaddr_csr := pa, mepc_csr := mepc c, mstatus_csr := mstatus c\<rparr>" and len: "length pa = 16"
    and ec: "\<forall>j<16. entry_cfg k1 j = (if j < 4 then entry_cfg k j else task_cfg regs j)"
    and ea: "\<forall>j<16. entry_addr k1 j = (if j < 4 then entry_addr k j else task_addr regs j)"
    by (rule apply_switch_run [OF i _ pmp])
  have "kernel_entries L k1" using inv ec ea len same by (simp add: kernel_inv_def kernel_entries_def k1)
  moreover have "regions_loaded regs k1" using ec ea by (simp add: regions_loaded_def)
  moreover have "task_entries_unlocked k1"
    using ec task_cfg_unlocked [OF ok] by (simp add: task_entries_unlocked_def)
  moreover have "sched_inv k1" "current_regions (SCHEDULER k1) = Some regs" using sched cur by (simp_all add: k1)
  ultimately show ?thesis using run ret by (simp add: kernel_inv_def current_loaded_def)
qed

lemma schedule_kernel_inv:
  assumes inv: "kernel_inv L k" and ret: "schedule frame k = Return frame' k'"
  shows "kernel_inv L k'"
proof -
  let ?st = "save_current frame (mepc_csr k) (mstatus_csr k) (SCHEDULER k)"
  have sched: "sched_inv k" using inv by (simp add: kernel_inv_def)
  note saved = save_current_ok [OF sched, of frame "mepc_csr k" "mstatus_csr k"]
  show ?thesis
  proof (cases "select_next_ready MAX_TASKS (current (SCHEDULER k)) (is_ready ?st)")
    case None
    have "k' = k\<lparr>SCHEDULER := ?st\<rparr>" using schedule_none [OF sched None] ret by simp
    then show ?thesis using kernel_inv_table [OF inv saved(1)] sched by simp
  next
    case (Some i)
    obtain t :: Task where t: "i < MAX_TASKS" "tasks ?st ! i = Some t"
      "schedule frame k = apply_switch i (cfg_regions (pmp_config t)) (task_context t) frame
        (k\<lparr>SCHEDULER := mark_running i ?st\<rparr>)"
      by (rule schedule_some [OF sched Some])
    let ?k = "k\<lparr>SCHEDULER := mark_running i ?st\<rparr>" and ?rs = "cfg_regions (pmp_config t)"
    have "list_all region_ok ?rs" using sched_okD(3) [OF saved(1) t(1)] t(2) by (simp add: slot_ok_def task_ok_def)
    moreover have "current_regions (SCHEDULER ?k) = Some ?rs"
      using t(1,2) sched_okD(1) [OF sched] by (simp add: current_regions_def tasks_mark_running)
    moreover have "sched_inv ?k"
      using mark_running_ok [OF saved t(1)] t(2) by simp
    ultimately show ?thesis
      using apply_switch_kernel_inv [OF inv, of ?k i ?rs "task_context t" frame frame' k'] ret t
      by (simp add: MAX_TASKS_def)
  qed
qed

lemma preserves_schedule: "preserves (kernel_inv L) (schedule frame)"
  using schedule_kernel_inv unfolding preserves_def by blast

lemma kill_locked_kernel_inv: "keeps (kernel_inv L) kill_locked"
proof (rule keepsI)
  fix k :: "'a kernel_scheme"
  assume inv: "kernel_inv L k"
  then have sched: "sched_inv k" by (simp add: kernel_inv_def)
  show "kernel_inv L (final_state (kill_locked k))"
  proof (cases "current (SCHEDULER k)")
    case None
    then show ?thesis using inv by (simp add: kill_locked_def bind_comp_def gets_def skip_def ret_def)
  next
    case (Some c)
    obtain t where t: "c < MAX_TASKS" "tasks (SCHEDULER k) ! c = Some t" "task_ok c t"
      by (rule current_task [OF sched Some])
    let ?st = "(SCHEDULER k)\<lparr>tasks := (tasks (SCHEDULER k))[c := Some (t\<lparr>task_state := Dead\<rparr>)]\<rparr>"
    let ?out = "block [puts ''[sched] task killed: '', put_dec (of_nat c), puts newline] ::
      ('a kernel_scheme, unit) comp"
    have "current_regions ?st = current_regions (SCHEDULER k)"
      using Some t sched_okD(1) [OF sched] by (simp add: current_regions_def)
    moreover have "sched_ok MAX_TASKS ?st" using t by (intro sched_ok_update [OF sched]) simp_all
    ultimately have "kernel_inv L (k\<lparr>SCHEDULER := ?st\<rparr>)" by (intro kernel_inv_table [OF inv])
    moreover have "console_only ?out"
      by (simp add: console_block console_puts console_put_dec del: block.simps)
    then have "console_step (k\<lparr>SCHEDULER := ?st\<rparr>) (final_state (?out (k\<lparr>SCHEDULER := ?st\<rparr>)))"
      by (simp add: console_only_def)
    ultimately have "kernel_inv L (final_state (?out (k\<lparr>SCHEDULER := ?st\<rparr>)))"
      by (auto simp: console_step_def)
    moreover have "kill_locked k = ?out (k\<lparr>SCHEDULER := ?st\<rparr>)"
      using Some t sched_okD(1) [OF sched]
      by (simp add: kill_locked_def bind_comp_def gets_def then_comp_def modify_def)
    ultimately show ?thesis by (simp only:)
  qed
qed

lemma preserves_kill_current: "preserves (kernel_inv L) (kill_current frame)"
  unfolding kill_current_def
  by (intro preserves_then preserves_schedule keeps_preserves keeps_with_lock kill_locked_kernel_inv)
    simp

section \<open>What the trap handler keeps\<close>

text \<open>
  A property of the kernel state survives every trap if it does not see the console, the
  program counter of the interrupted program and the timer, and the scheduler's two entry
  points preserve it.
\<close>

locale trap_property =
  fixes P :: "'a kernel_scheme \<Rightarrow> bool"
  assumes on_console: "console_step k k' \<Longrightarrow> P k \<Longrightarrow> P k'"
    and on_mepc: "P (k\<lparr>mepc_csr := v\<rparr>) = P k"
    and on_timer: "P (k\<lparr>mtimecmp := v, mmio_trace := tr\<rparr>) = P k"
    and on_tick: "P (k\<lparr>TICK_COUNT := n\<rparr>) = P k"
    and on_schedule: "preserves P (schedule frame)"
    and on_kill: "preserves P (kill_current frame)"
begin

lemma console_preserved: "console_only m \<Longrightarrow> preserves P m"
  unfolding preserves_def console_only_def using on_console by (metis final_state.simps(1))

lemma updates_preserved:
  "preserves P (mepc_write v)" "preserves P increment_tick" "preserves P schedule_next_tick"
  by (auto simp: preserves_def csr_write_runs tick_runs schedule_next_tick_run on_mepc on_timer on_tick)

lemma println_preserved: "preserves P (println args)"
  by (rule console_preserved [OF console_println])

lemma panic_exception_preserved: "preserves P (panic_exception name me mt)"
  by (auto simp: preserves_def panic_exception_def panic_at_def elim!: then_returnE)

lemma handle_syscall_preserved: "preserves P (handle_syscall frame)"
  unfolding handle_syscall_def
  by (intro preserves_intros console_preserved console_try_getc console_putc console_println)

lemma handle_interrupt_preserved: "preserves P (handle_interrupt cause frame)"
  unfolding handle_interrupt_def
  by (intro preserves_intros println_preserved on_schedule updates_preserved preserves_reads)

lemma handle_access_fault_preserved: "preserves P (handle_access_fault name me mt frame)"
  unfolding handle_access_fault_def read_mpp_def
  by (intro preserves_intros println_preserved on_kill panic_exception_preserved preserves_reads)

lemma handle_exception_preserved: "preserves P (handle_exception cause me mt frame)"
  unfolding handle_exception_def write_mepc_def
  by (intro preserves_intros println_preserved handle_syscall_preserved handle_access_fault_preserved
      panic_exception_preserved updates_preserved)

lemma trap_handler_preserved: "preserves P (trap_handler frame)"
  unfolding trap_handler_def Let_def read_mcause_def read_mepc_def read_mtval_def
  by (intro preserves_intros preserves_reads handle_interrupt_preserved handle_exception_preserved)

end

interpretation inv: trap_property "kernel_inv L" for L
proof
  fix k k' :: "'a kernel_scheme"
  assume "console_step k k'" "kernel_inv L k"
  then show "kernel_inv L k'" by (auto simp: console_step_def)
qed (simp_all add: preserves_schedule preserves_kill_current)

lemmas preserves_trap_handler = inv.trap_handler_preserved

end
