(* ===== verification/Trapping.thy ===== *)
theory Trapping
  imports Kernel_Invariant
begin

text \<open>
  What the trap handler of \<open>crates/kernel/src/trap.rs\<close> does: which traps panic and with what
  report, the effect of the system calls, preemption by the timer, and the containment of a
  user task's access faults. Where a result needs the transmitter to accept a message, the
  bound on \<open>tx_budget\<close> covers the longest message of that path.
\<close>

section \<open>Decoding the cause\<close>

definition interrupt_cause :: "u64 \<Rightarrow> u64" where
  "interrupt_cause n = push_bit 63 1 OR n"

lemma trap_handler_run:
  "trap_handler frame k =
     (if bit (mcause_csr k) 63 then handle_interrupt (take_bit 63 (mcause_csr k)) frame k
      else handle_exception (take_bit 63 (mcause_csr k)) (mepc_csr k) (mtval_csr k) frame k)"
proof -
  have "drop_bit 63 w AND 1 = 1 \<longleftrightarrow> bit w 63" for w :: u64
    by (simp add: bit_iff_odd_drop_bit and_one_eq mod2_eq_if)
  moreover have "w AND 0x7FFFFFFFFFFFFFFF = take_bit 63 w" for w :: u64
    by (simp add: take_bit_eq_mask mask_eq_decr_exp)
  ultimately show ?thesis
    by (simp add: trap_handler_def read_mcause_def read_mepc_def read_mtval_def bind_comp_def
        csr_read_runs Let_def)
qed

lemma exception_small:
  fixes w :: u64
  assumes "unat w < 2 ^ 63"
  shows "\<not> bit w 63" "take_bit 63 w = w"
proof -
  have t: "unat (take_bit 63 w) = unat w mod 2 ^ 63"
    by (simp add: take_bit_eq_mod unat_mod_distrib unat_pow2)
  with assms show tw: "take_bit 63 w = w" by (simp add: word_unat_eq_iff)
  show "\<not> bit w 63" using tw by (metis bit_take_bit_iff less_irrefl)
qed

lemma interrupt_decode:
  assumes "unat n < 2 ^ 63"
  shows "bit (interrupt_cause n) 63" "take_bit 63 (interrupt_cause n) = n"
proof -
  show "bit (interrupt_cause n) 63" by (simp add: interrupt_cause_def bit_simps)
  have "take_bit 63 (push_bit 63 1 :: u64) = 0" by (simp add: take_bit_push_bit)
  then show "take_bit 63 (interrupt_cause n) = n"
    using exception_small(2) [OF assms] by (simp add: interrupt_cause_def)
qed

section \<open>No silent panics\<close>

lemma emits_no_panic: "emits m bs \<Longrightarrow> m h \<noteq> Panic i h'"
  by (cases "length bs \<le> tx_budget h") (auto elim: emitsD [of m bs h] emits_HangD [of m bs h])

lemma then_panicE:
  assumes "then_comp m n s = Panic i s'"
  obtains "m s = Panic i s'" | a s1 where "m s = Return a s1" "n s1 = Panic i s'"
  using assms by (auto simp: then_comp_def bind_comp_def split: outcome.splits)

lemma schedule_no_panic:
  assumes "kernel_inv L k"
  shows "schedule frame k \<noteq> Panic info k'"
proof -
  let ?st = "save_current frame (mepc_csr k) (mstatus_csr k) (SCHEDULER k)"
  have sched: "sched_inv k" and pmp: "length (pmpaddr_csr k) = 16" "task_entries_unlocked k"
    using assms by (simp_all add: kernel_inv_def kernel_entries_def)
  show ?thesis
  proof (cases "select_next_ready MAX_TASKS (current (SCHEDULER k)) (is_ready ?st)")
    case None
    then show ?thesis using schedule_none [OF sched None] by simp
  next
    case (Some i)
    let ?k = "k\<lparr>SCHEDULER := mark_running i ?st\<rparr>"
    obtain t :: Task where t: "i < MAX_TASKS" "schedule frame k =
        apply_switch i (cfg_regions (pmp_config t)) (task_context t) frame ?k"
      by (rule schedule_some [OF sched Some])
    have i: "i < 4" using t(1) by (simp add: MAX_TASKS_def)
    show ?thesis
    proof (cases "length (switch_message i) \<le> tx_budget ?k")
      case True
      have "length (pmpaddr_csr ?k) = 16" "task_entries_unlocked ?k" using pmp by simp_all
      then show ?thesis unfolding t(2) 
        by (rule apply_switch_run [OF i True, where regs = "cfg_regions (pmp_config t)" and
              c = "task_context t" and frame = frame]) simp
    next
      case False
      then show ?thesis unfolding t(2) 
        by (rule apply_switch_hang [OF i, where regs = "cfg_regions (pmp_config t)" and
              c = "task_context t" and frame = frame]) simp
    qed
  qed
qed

lemma kill_locked_no_panic:
  assumes "sched_inv k"
  shows "kill_locked k \<noteq> Panic info k'"
proof (cases "current (SCHEDULER k)")
  case None
  then show ?thesis by (simp add: kill_locked_def bind_comp_def gets_def skip_def ret_def)
next
  case (Some c)
  obtain t where t: "c < MAX_TASKS" "tasks (SCHEDULER k) ! c = Some t"
    by (rule current_task [OF assms Some])
  then have "c < 4" by (simp add: MAX_TASKS_def)
  have "kill_locked k = block [puts ''[sched] task killed: '', put_dec (of_nat c), puts newline]
      (k\<lparr>SCHEDULER := (SCHEDULER k)\<lparr>tasks := (tasks (SCHEDULER k))[c := Some (t\<lparr>task_state := Dead\<rparr>)]\<rparr>\<rparr>)"
    using Some t sched_okD(1) [OF assms]
    by (simp add: kill_locked_def bind_comp_def gets_def then_comp_def modify_def)
  with emits_no_panic [OF emits_kill_message [OF \<open>c < 4\<close>]] show ?thesis by simp
qed

lemma with_lock_panicD: "with_lock m k = Panic i k' \<Longrightarrow> m (k\<lparr>mstatus_csr := mstatus_csr k AND NOT 8\<rparr>) = Panic i k'"
  by (simp add: with_lock_eq split: outcome.splits)

lemma kill_current_no_panic:
  assumes "kernel_inv L k"
  shows "kill_current frame k \<noteq> Panic info k'"
proof
  assume "kill_current frame k = Panic info k'"
  then show False
    unfolding kill_current_def
  proof (cases rule: then_panicE)
    case 1
    have "sched_inv (k\<lparr>mstatus_csr := mstatus_csr k AND NOT 8\<rparr>)"
      using assms by (simp add: kernel_inv_def)
    with with_lock_panicD [OF 1] kill_locked_no_panic show False by blast
  next
    case (2 a k1)
    have "preserves (kernel_inv L) (with_lock kill_locked)"
      by (intro keeps_preserves keeps_with_lock kill_locked_kernel_inv) simp
    from preservesD [OF this assms 2(1)] 2(2) schedule_no_panic show False by blast
  qed
qed

text \<open>Computations that preserve a predicate and do not panic where it holds.\<close>

definition safe :: "('s \<Rightarrow> bool) \<Rightarrow> ('s, 'a) comp \<Rightarrow> bool" where
  "safe P m \<longleftrightarrow> preserves P m \<and> (\<forall>s i s'. P s \<longrightarrow> m s \<noteq> Panic i s')"

lemma safeI: "preserves P m \<Longrightarrow> (\<And>s i s'. P s \<Longrightarrow> m s \<noteq> Panic i s') \<Longrightarrow> safe P m"
  by (simp add: safe_def)

lemma safe_no_panic: "safe P m \<Longrightarrow> P s \<Longrightarrow> m s \<noteq> Panic i s'"
  by (simp add: safe_def)

lemma safe_bind:
  assumes m: "safe P m" and f: "\<And>a. safe P (f a)"
  shows "safe P (bind_comp m f)"
proof (rule safeI)
  show "preserves P (bind_comp m f)" using m f by (intro preserves_bind) (simp_all add: safe_def)
  fix s i s'
  assume P: "P s"
  show "bind_comp m f s \<noteq> Panic i s'"
  proof (cases "m s")
    case (Return a s1)
    have "P s1" using m P Return by (auto simp: safe_def intro: preservesD)
    with f Return show ?thesis by (simp add: bind_comp_def safe_def)
  next
    case (Panic j s1)
    then show ?thesis using m P by (simp add: safe_def)
  qed (simp add: bind_comp_def)
qed

lemma safe_then: "safe P m \<Longrightarrow> safe P n \<Longrightarrow> safe P (then_comp m n)"
  unfolding then_comp_def by (rule safe_bind)

lemma safe_if: "(b \<Longrightarrow> safe P m) \<Longrightarrow> (\<not> b \<Longrightarrow> safe P n) \<Longrightarrow> safe P (if b then m else n)"
  by simp

lemma safe_ret: "safe P (ret a)" "safe P skip"
  by (auto simp: safe_def preserves_def ret_def skip_def)

lemmas safe_intros = safe_bind safe_then safe_if safe_ret

lemma safe_emits: "emits m bs \<Longrightarrow> safe (kernel_inv L) m"
  by (rule safeI [OF preserves_console [OF emits_console_only]]) (simp_all add: emits_no_panic)

lemmas safe_println = safe_emits [OF emits_println]

lemma safe_schedule: "safe (kernel_inv L) (schedule frame)"
  by (rule safeI [OF preserves_schedule schedule_no_panic])

lemma safe_kill_current: "safe (kernel_inv L) (kill_current frame)"
  by (rule safeI [OF preserves_kill_current kill_current_no_panic])

lemma safe_csr:
  "safe (kernel_inv L) (mepc_write v)" "safe (kernel_inv L) increment_tick"
  "safe (kernel_inv L) schedule_next_tick" "safe (kernel_inv L) get_tick_count"
  by (simp_all add: safe_def preserves_csr preserves_reads csr_write_runs tick_runs schedule_next_tick_run)

section \<open>Properties\<close>

text \<open>The exceptions that end the kernel.\<close>

definition fatal_cause :: "u64 \<Rightarrow> u64 \<Rightarrow> bool" where
  "fatal_cause cause status \<longleftrightarrow>
     (if cause \<in> {1, 5, 7} then mpp_of status \<noteq> 0 else cause \<notin> {3, 8, 9, 11})"

lemma safe_handle_syscall: "safe (kernel_inv L) (handle_syscall frame)"
proof -
  have "safe (kernel_inv L) try_getc"
    by (rule safeI [OF preserves_console [OF console_try_getc]])
      (auto simp: try_getc_def read_volatile8_def bind_comp_def ret_def split: list.splits if_splits)
  then show ?thesis
    unfolding handle_syscall_def by (intro safe_intros safe_emits [OF emits_putc] safe_println)
qed

lemma safe_handle_interrupt: "safe (kernel_inv L) (handle_interrupt cause frame)"
  unfolding handle_interrupt_def
  by (intro safe_intros safe_println safe_schedule safe_csr)

lemma access_fault_no_panic:
  assumes "kernel_inv L k" "mpp_of (mstatus_csr k) = 0"
  shows "handle_access_fault name me mt frame k \<noteq> Panic info k'"
proof -
  show ?thesis
    using safe_no_panic [OF safe_then [OF safe_println safe_kill_current] assms(1)] assms(2)
    by (simp add: handle_access_fault_def read_mpp_def bind_comp_def csr_read_runs)
qed

text \<open>Room for any of the kernel's messages.\<close>

lemma length_crlf: "length (crlf bs) \<le> 2 * length bs"
  by (induction bs) auto

lemma length_fmt: "length (fmt_hex n) \<le> 18" "length (fmt_dec n) \<le> 20"
proof -
  have n: "unat n < 2 ^ 64" using unsigned_less [of n] by simp
  have "length (hex_bytes (unat n)) \<le> 16" using n by (intro digits_length) simp_all
  then show "length (fmt_hex n) \<le> 18" by (simp add: fmt_hex_def)
  have "unat n < 10 ^ 20" using n by simp
  then have "length (dec_bytes (unat n)) \<le> 20" by (intro digits_length) simp_all
  then show "length (fmt_dec n) \<le> 20" by (simp add: fmt_dec_def)
qed

lemma println_returns:
  assumes "2 * (length (concat args) + 1) \<le> tx_budget k"
  obtains k' where "println args k = Return () k'" "console_step k k'"
    "tx_budget k \<le> tx_budget k' + 2 * (length (concat args) + 1)"
proof -
  let ?bs = "crlf (bytes (concat args @ newline))"
  have len: "length ?bs \<le> 2 * (length (concat args) + 1)"
    using length_crlf [of "bytes (concat args @ newline)"] by (simp add: newline_def)
  then have "length ?bs \<le> tx_budget k" using assms by simp
  then obtain vs tr where run: "println args k = Return () (k\<lparr>uart_in := vs, mmio_trace := mmio_trace k @ tr\<rparr>)"
    "thr_bytes tr = ?bs" "paced tr" "tx_ready vs = tx_budget k - length ?bs"
    by (rule emitsD [OF emits_println])
  show ?thesis
  proof (rule that [OF run(1)])
    show "console_step k (k\<lparr>uart_in := vs, mmio_trace := mmio_trace k @ tr\<rparr>)"
      by (auto simp: console_step_def)
    show "tx_budget k \<le> tx_budget (k\<lparr>uart_in := vs, mmio_trace := mmio_trace k @ tr\<rparr>) +
        2 * (length (concat args) + 1)"
      using run(4) len by (simp add: tx_budget_def)
  qed
qed

lemma panic_exception_runs:
  assumes "length name \<le> 30" "256 \<le> tx_budget k"
  obtains k' where "panic_exception name me mt k = Panic \<lparr>panic_message = name,
      panic_file = ''crates/kernel/src/trap.rs'', panic_line = 355\<rparr> k'" "console_step k k'"
proof -
  let ?args = "[''[trap] FATAL: '', name, newline @ ''  mepc:  '', fmt_hex me, newline @ ''  mtval: '', fmt_hex mt]"
  have "2 * (length (concat ?args) + 1) \<le> tx_budget k"
    using assms length_fmt(1) [of me] length_fmt(1) [of mt] by (simp add: newline_def)
  then obtain k' where "println ?args k = Return () k'" "console_step k k'" by (rule println_returns)
  then show ?thesis
    by (intro that [of k']) (simp_all add: panic_exception_def then_comp_def bind_comp_def panic_at_def)
qed

lemma unknown_exception_runs:
  assumes "256 \<le> tx_budget k"
  obtains k' where "then_comp (println [''[trap] Unknown exception: '', fmt_dec cause, '' at '', fmt_hex me])
        (panic_at ''crates/kernel/src/trap.rs'' 342 ''Unhandled exception'') k =
      Panic \<lparr>panic_message = ''Unhandled exception'',
        panic_file = ''crates/kernel/src/trap.rs'', panic_line = 342\<rparr> k'" "console_step k k'"
proof -
  let ?args = "[''[trap] Unknown exception: '', fmt_dec cause, '' at '', fmt_hex me]"
  have "2 * (length (concat ?args) + 1) \<le> tx_budget k"
    using assms length_fmt(1) [of me] length_fmt(2) [of cause] by simp
  then obtain k' where "println ?args k = Return () k'" "console_step k k'" by (rule println_returns)
  then show ?thesis
    by (intro that [of k']) (simp_all add: then_comp_def bind_comp_def panic_at_def)
qed

text \<open>The message of a fatal exception.\<close>

definition fatal_name :: "u64 \<Rightarrow> string" where
  "fatal_name c =
     (if c = 0 then ''Instruction address misaligned''
      else if c = 1 then ''Instruction access fault''
      else if c = 2 then ''Illegal instruction''
      else if c = 4 then ''Load address misaligned''
      else if c = 5 then ''Load access fault''
      else if c = 6 then ''Store address misaligned''
      else if c = 7 then ''Store access fault''
      else if c = 12 then ''Instruction page fault''
      else if c = 13 then ''Load page fault''
      else if c = 15 then ''Store page fault'' else ''Unhandled exception'')"

lemma length_fatal_name: "length (fatal_name c) \<le> 30"
  by (simp add: fatal_name_def)

lemma handle_access_fault_machine:
  "mpp_of (mstatus_csr k) \<noteq> 0 \<Longrightarrow>
   handle_access_fault name me mt frame k = panic_exception name me mt k"
  by (simp add: handle_access_fault_def read_mpp_def bind_comp_def csr_read_runs)

lemma handle_exception_fatal:
  assumes "fatal_cause c (mstatus_csr k)" "c \<in> {0, 1, 2, 4, 5, 6, 7, 12, 13, 15}"
  shows "handle_exception c me mt frame k = panic_exception (fatal_name c) me mt k"
proof -
  consider "c = 0" | "c = 1" | "c = 2" | "c = 4" | "c = 5" | "c = 6" | "c = 7" | "c = 12" | "c = 13" | "c = 15"
    using assms(2) by blast
  then show ?thesis using assms(1)
    by cases (simp_all add: handle_exception_def fatal_name_def fatal_cause_def handle_access_fault_machine)
qed

lemma handle_exception_unknown:
  assumes "c \<notin> {0, 1, 2, 3, 4, 5, 6, 7, 8, 9, 11, 12, 13, 15}"
  shows "handle_exception c me mt frame k =
    then_comp (println [''[trap] Unknown exception: '', fmt_dec c, '' at '', fmt_hex me])
      (panic_at ''crates/kernel/src/trap.rs'' 342 ''Unhandled exception'') k"
  using assms by (simp add: handle_exception_def)

lemma fatal_panics:
  assumes "\<not> bit (mcause_csr k) 63" "fatal_cause (take_bit 63 (mcause_csr k)) (mstatus_csr k)"
    "256 \<le> tx_budget k"
  obtains k' where "trap_handler frame k = Panic \<lparr>panic_message = fatal_name (take_bit 63 (mcause_csr k)),
      panic_file = ''crates/kernel/src/trap.rs'', panic_line =
        (if take_bit 63 (mcause_csr k) \<in> {0, 1, 2, 4, 5, 6, 7, 12, 13, 15} then 355 else 342)\<rparr> k'"
    "console_step k k'"
proof -
  let ?c = "take_bit 63 (mcause_csr k)"
  have run: "trap_handler frame k = handle_exception ?c (mepc_csr k) (mtval_csr k) frame k"
    using assms(1) by (simp add: trap_handler_run)
  show ?thesis
  proof (cases "?c \<in> {0, 1, 2, 4, 5, 6, 7, 12, 13, 15}")
    case True
    show ?thesis
      by (rule panic_exception_runs [OF length_fatal_name assms(3)], rule that)
        (simp_all only: run handle_exception_fatal [OF assms(2) True] True if_True)
  next
    case False
    then have c: "?c \<notin> {0, 1, 2, 3, 4, 5, 6, 7, 8, 9, 11, 12, 13, 15}"
      using assms(2) by (auto simp: fatal_cause_def)
    then have name: "fatal_name ?c = ''Unhandled exception''" by (simp add: fatal_name_def)
    show ?thesis
      by (rule unknown_exception_runs [OF assms(3)], rule that)
        (simp_all only: run handle_exception_unknown [OF c] name False if_False)
  qed
qed

lemma trap_panic_is_fatal:
  assumes inv: "kernel_inv L k" and panic: "trap_handler frame k = Panic info k'"
  shows "\<not> bit (mcause_csr k) 63 \<and> fatal_cause (take_bit 63 (mcause_csr k)) (mstatus_csr k)"
proof -
  let ?c = "take_bit 63 (mcause_csr k)"
  have exc: "\<not> bit (mcause_csr k) 63"
    using panic safe_no_panic [OF safe_handle_interrupt inv] by (auto simp: trap_handler_run)
  then have run: "handle_exception ?c (mepc_csr k) (mtval_csr k) frame k = Panic info k'"
    using panic by (simp add: trap_handler_run)
  have "fatal_cause ?c (mstatus_csr k)"
  proof (rule ccontr)
    assume "\<not> fatal_cause ?c (mstatus_csr k)"
    then consider "?c \<in> {1, 5, 7}" "mpp_of (mstatus_csr k) = 0" | "?c \<in> {3, 8, 9, 11}"
      by (auto simp: fatal_cause_def split: if_splits)
    then show False
    proof cases
      case 1
      then show False
        using run access_fault_no_panic [OF inv 1(2)] by (auto simp: handle_exception_def)
    next
      case 2
      have "safe (kernel_inv L) (then_comp (println args) (then_comp (mepc_write v) (ret frame)))"
        "safe (kernel_inv L) (bind_comp (handle_syscall frame) (\<lambda>f. then_comp (mepc_write v) (ret f)))" for args v
        by (intro safe_intros safe_println safe_csr safe_handle_syscall)+
      from this [THEN safe_no_panic, OF inv] 2 run show False
        by (auto simp: handle_exception_def write_mepc_def)
    qed
  qed
  with exc show ?thesis ..
qed

section \<open>System calls\<close>

lemma user_ecall_run:
  assumes "mcause_csr k = 8"
  shows "trap_handler frame k = (case handle_syscall frame k of
      Return frame' k' \<Rightarrow> Return frame' (k'\<lparr>mepc_csr := mepc_csr k + 4\<rparr>)
    | Panic info k' \<Rightarrow> Panic info k' | Hang k' \<Rightarrow> Hang k')"
  using assms
  by (simp add: trap_handler_run exception_small handle_exception_def bind_comp_def write_mepc_def
      then_comp_def ret_def csr_write_runs)

lemma putc_call_run:
  assumes "mcause_csr k = 8" "a7 frame = SYS_PUTC" "0 < tx_budget k"
  obtains vs tr where "trap_handler frame k =
      Return frame (k\<lparr>uart_in := vs, mmio_trace := mmio_trace k @ tr, mepc_csr := mepc_csr k + 4\<rparr>)"
    "thr_bytes tr = [ucast (a0 frame)]"
proof -
  have "length [ucast (a0 frame) :: u8] \<le> tx_budget k" using assms(3) by simp
  then obtain vs tr where out: "putc (ucast (a0 frame)) k = Return () (k\<lparr>uart_in := vs, mmio_trace := mmio_trace k @ tr\<rparr>)"
    "thr_bytes tr = [ucast (a0 frame)]"
    by (rule emitsD [OF emits_putc])
  have "handle_syscall frame k = Return frame (k\<lparr>uart_in := vs, mmio_trace := mmio_trace k @ tr\<rparr>)"
    using assms(2) out(1)
    by (simp add: handle_syscall_def SYS_GETC_def SYS_PUTC_def then_comp_def bind_comp_def ret_def)
  then show ?thesis using out(2) by (intro that [of tr vs]) (simp_all add: user_ecall_run [OF assms(1)])
qed

text \<open>What a receive call finds: the device's next answers.\<close>

fun received :: "u8 list \<Rightarrow> (u8 option \<times> u8 list) option" where
  "received [] = None"
| "received (v # vs) = (if v AND LSR_RX_READY = 0 then Some (None, vs)
     else (case vs of [] \<Rightarrow> None | b # bs \<Rightarrow> Some (Some b, bs)))"

lemma try_getc_run:
  assumes "received (uart_in k) = Some (r, vs)"
  obtains tr where "try_getc k = Return r (k\<lparr>uart_in := vs, mmio_trace := mmio_trace k @ tr\<rparr>)" "thr_bytes tr = []"
proof (cases "uart_in k")
  case (Cons v ws)
  show ?thesis
  proof (cases "v AND LSR_RX_READY = 0")
    case True
    then show ?thesis using assms Cons
      by (intro that [of "[MmioRead8 (UART_BASE + LSR) v]"])
        (auto simp: try_getc_def read_volatile8_def bind_comp_def ret_def)
  next
    case False
    with assms Cons obtain b where "ws = b # vs" "r = Some b" by (auto split: list.splits)
    with False Cons show ?thesis
      by (intro that [of "[MmioRead8 (UART_BASE + LSR) v, MmioRead8 (UART_BASE + RBR) b]"])
        (auto simp: try_getc_def read_volatile8_def bind_comp_def ret_def)
  qed
qed (use assms in simp)

lemma getc_call_run:
  assumes "mcause_csr k = 8" "a7 frame = SYS_GETC" "received (uart_in k) = Some (r, vs)"
  obtains tr where "trap_handler frame k = Return (frame\<lparr>a0 := ucast (case r of None \<Rightarrow> 0xFF | Some b \<Rightarrow> b)\<rparr>)
      (k\<lparr>uart_in := vs, mmio_trace := mmio_trace k @ tr, mepc_csr := mepc_csr k + 4\<rparr>)" "thr_bytes tr = []"
proof -
  obtain tr where run: "try_getc k = Return r (k\<lparr>uart_in := vs, mmio_trace := mmio_trace k @ tr\<rparr>)" "thr_bytes tr = []"
    by (rule try_getc_run [OF assms(3)])
  then have "handle_syscall frame k = Return (frame\<lparr>a0 := ucast (case r of None \<Rightarrow> 0xFF | Some b \<Rightarrow> b)\<rparr>)
      (k\<lparr>uart_in := vs, mmio_trace := mmio_trace k @ tr\<rparr>)"
    using assms(2) by (simp add: handle_syscall_def bind_comp_def ret_def)
  then show ?thesis using run(2) by (intro that [of tr]) (simp_all add: user_ecall_run [OF assms(1)])
qed

section \<open>An example state\<close>

lemma example_kernel_inv: "kernel_inv linker_example (example_kernel vs)"
proof -
  have cfg: "regions_loaded (cfg_regions PmpConfig_empty) (example_kernel vs)"
  proof -
    have "entry_cfg booted_hart i = 0 \<and> init_addr linker_example ! i = 0" if "i \<in> set [4..<16]" for i
      using that
      by (auto simp: entry_cfg_def booted_hart_def reset_hart_def byte_of_def init_addr_def)
    moreover have "task_cfg (cfg_regions PmpConfig_empty) i = 0" "task_addr (cfg_regions PmpConfig_empty) i = 0"
      if "i < 16" for i
      using that by (simp_all add: task_cfg_def task_addr_def region_at_def PmpConfig_empty_def
          PMP_COUNT_def PmpRegion_new_def)
    ultimately show ?thesis
      by (simp add: regions_loaded_def entry_addr_def booted_hart_def del: upt_rec_numeral)
  qed
  have "kernel_entries linker_example (example_kernel vs)"
    using booted_hart_entries(1) by (simp add: kernel_entries_def entry_addr_def)
  moreover have "current_loaded (example_kernel vs)"
    using cfg by (simp add: current_loaded_def current_regions_def example_sched_def example_task_def Task_new_def)
  ultimately show ?thesis
    using example_inv example_kernel_pmp(2) by (simp add: kernel_inv_def)
qed

section \<open>Properties of traps\<close>

text \<open>
  C15: Which traps panic. From any state that satisfies the kernel's invariant, a trap panics only
  if it is an exception and a fatal one: an access fault taken from machine mode, or any cause
  other than a breakpoint, an environment call or an access fault. With room for the message
  in the transmitter each of these does panic, at the line the source gives for it. So no
  interrupt, no system call and no access fault of a user task brings the kernel down; an
  illegal instruction or a misaligned access of a user task does.
\<close>

theorem trap_panics_iff_fatal:
  assumes inv: "kernel_inv L k" and room: "256 \<le> tx_budget k"
  shows "((\<exists>info k'. trap_handler frame k = Panic info k') \<longleftrightarrow>
      \<not> bit (mcause_csr k) 63 \<and> fatal_cause (take_bit 63 (mcause_csr k)) (mstatus_csr k)) \<and>
    (\<forall>info k'. trap_handler frame k = Panic info k' \<longrightarrow>
      info = \<lparr>panic_message = fatal_name (take_bit 63 (mcause_csr k)),
        panic_file = ''crates/kernel/src/trap.rs'', panic_line =
          (if take_bit 63 (mcause_csr k) \<in> {0, 1, 2, 4, 5, 6, 7, 12, 13, 15} then 355 else 342)\<rparr>)"
    (is "(?panic = ?fatal) \<and> ?info")
proof (intro conjI)
  have does: "?panic" "?info" if f: ?fatal
  proof -
    obtain k' where "trap_handler frame k = Panic \<lparr>panic_message = fatal_name (take_bit 63 (mcause_csr k)),
        panic_file = ''crates/kernel/src/trap.rs'', panic_line =
          (if take_bit 63 (mcause_csr k) \<in> {0, 1, 2, 4, 5, 6, 7, 12, 13, 15} then 355 else 342)\<rparr> k'"
      by (rule fatal_panics [OF conjunct1 [OF f] conjunct2 [OF f] room])
    then show ?panic ?info by simp_all
  qed
  then show "?panic = ?fatal" using trap_panic_is_fatal [OF inv] by blast
  show ?info using does(2) trap_panic_is_fatal [OF inv] by blast
qed

theorem trap_panics_iff_fatal_witness:
  "\<exists>k'. trap_handler zero_frame ((example_kernel (replicate 256 0x20))\<lparr>mcause_csr := 2\<rparr>) =
     Panic \<lparr>panic_message = ''Illegal instruction'',
       panic_file = ''crates/kernel/src/trap.rs'', panic_line = 355\<rparr> k'"
proof -
  let ?k = "(example_kernel (replicate 256 0x20))\<lparr>mcause_csr := 2\<rparr>"
  have "kernel_inv linker_example ?k" "256 \<le> tx_budget ?k"
    using example_budget [of 256] by (simp_all add: example_kernel_inv tx_budget_def)
  moreover have "take_bit 63 (2 :: u64) = 2" "\<not> bit (2 :: u64) 63" by (simp_all add: exception_small)
  moreover have "fatal_cause 2 st" for st by (simp add: fatal_cause_def)
  moreover have "fatal_name 2 = ''Illegal instruction''" by (simp add: fatal_name_def)
  ultimately show ?thesis using trap_panics_iff_fatal [of linker_example ?k zero_frame] by fastforce
qed

text \<open>The accesses the hart allows while the invariant holds and a task is current.\<close>

lemma current_access:
  assumes "linker_ok L" "kernel_inv L k" "current (SCHEDULER k) = Some c" "tasks (SCHEDULER k) ! c = Some t"
  shows "hart_allows k priv acc a \<longleftrightarrow>
      (if in_text L a then acc = AccExec
       else if in_data L a \<or> in_uart a then acc \<noteq> AccExec
       else priv = M_mode \<or> task_permits (cfg_regions (pmp_config t)) acc a)"
proof -
  have "c < MAX_TASKS" using sched_okD(2) [of MAX_TASKS "SCHEDULER k" c] assms(2,3) by (simp add: kernel_inv_def)
  then have "list_all region_ok (cfg_regions (pmp_config t))"
    using sched_okD(3) [of MAX_TASKS "SCHEDULER k" c] assms(2,4)
    by (simp add: kernel_inv_def slot_ok_def task_ok_def)
  moreover have "kernel_entries L k" "regions_loaded (cfg_regions (pmp_config t)) k"
    using assms(2-4) by (simp_all add: kernel_inv_def current_loaded_def current_regions_def)
  ultimately show ?thesis using access_table [OF assms(1)] by blast
qed

text \<open>
  C3: Protection across traps. When the trap handler returns, whatever the trap was, the
  kernel's invariant holds again and the accesses the hart allows are those of the task that is
  now current: text can only be executed, data up to the end of the heap and the UART page read
  and written, and outside them user mode has exactly what the first matching region of the
  current task grants, while machine mode has everything.
\<close>

theorem trap_return_protection:
  assumes "linker_ok L" "kernel_inv L k" "trap_handler frame k = Return frame' k'"
    and "current (SCHEDULER k') = Some c" "tasks (SCHEDULER k') ! c = Some t"
  shows "kernel_inv L k' \<and>
    (hart_allows k' priv acc a \<longleftrightarrow>
      (if in_text L a then acc = AccExec
       else if in_data L a \<or> in_uart a then acc \<noteq> AccExec
       else priv = M_mode \<or> task_permits (cfg_regions (pmp_config t)) acc a))"
  using preservesD [OF preserves_trap_handler assms(2,3)] current_access [OF assms(1) _ assms(4,5)] by blast

lemma task_permits_empty: "\<not> task_permits (cfg_regions PmpConfig_empty) acc a"
proof -
  have "region_at (cfg_regions PmpConfig_empty) i = PmpRegion_new 0 0 0" for i
    by (simp add: region_at_def PmpConfig_empty_def)
  then have "find (\<lambda>i. in_region (region_at (cfg_regions PmpConfig_empty) i) a) [4..<16] = None"
    by (simp add: find_None_iff in_region_def PmpRegion_new_def del: upt_rec_numeral)
  then show ?thesis by (simp add: task_permits_def)
qed

theorem trap_return_protection_witness:
  "\<exists>k'. trap_handler (zero_frame\<lparr>a7 := SYS_PUTC\<rparr>)
       ((example_kernel [0x20])\<lparr>mcause_csr := 8\<rparr>) = Return (zero_frame\<lparr>a7 := SYS_PUTC\<rparr>) k' \<and>
     \<not> hart_allows k' U_mode AccRead 0x40000000 \<and> hart_allows k' M_mode AccRead 0x40000000"
proof -
  let ?k = "(example_kernel [0x20])\<lparr>mcause_csr := 8\<rparr>" and ?f = "zero_frame\<lparr>a7 := SYS_PUTC\<rparr>"
  have prem: "mcause_csr ?k = 8" "a7 ?f = SYS_PUTC" "0 < tx_budget ?k"
    by (simp_all add: tx_budget_def tx_ready_def LSR_TX_EMPTY_def)
  obtain vs tr where run: "trap_handler ?f ?k =
      Return ?f (?k\<lparr>uart_in := vs, mmio_trace := mmio_trace ?k @ tr, mepc_csr := mepc_csr ?k + 4\<rparr>)"
    by (rule putc_call_run [OF prem])
  let ?k' = "?k\<lparr>uart_in := vs, mmio_trace := mmio_trace ?k @ tr, mepc_csr := mepc_csr ?k + 4\<rparr>"
  let ?t = "example_task 1 Running 0x80008000"
  have cur: "current (SCHEDULER ?k') = Some 1" "tasks (SCHEDULER ?k') ! 1 = Some ?t"
    by (simp_all add: example_sched_def)
  have "\<not> in_text linker_example 0x40000000" "\<not> in_data linker_example 0x40000000" "\<not> in_uart 0x40000000"
    by (simp_all add: in_text_def in_data_def in_uart_def linker_example_def)
  moreover have "\<not> task_permits (cfg_regions (pmp_config ?t)) AccRead 0x40000000"
    by (simp add: example_task_def Task_new_def task_permits_empty)
  moreover have "kernel_inv linker_example ?k" by (simp add: example_kernel_inv)
  ultimately show ?thesis
    using trap_return_protection [OF linker_example_ok _ run cur] run by auto
qed

text \<open>
  C26: The system calls. An environment call from user mode resumes after the instruction (the
  saved program counter grows by four) and changes neither the task table, nor the PMP, nor the
  machine status. A transmit call sends exactly the low byte of \<open>a0\<close> and leaves the frame as it
  was; a receive call changes only \<open>a0\<close>, to the byte that was received, or to 0xFF if there
  is none.
\<close>

theorem syscall_effect:
  assumes "mcause_csr k = 8"
  shows "(a7 frame = SYS_PUTC \<longrightarrow> 0 < tx_budget k \<longrightarrow>
      (\<exists>vs tr. trap_handler frame k =
         Return frame (k\<lparr>uart_in := vs, mmio_trace := mmio_trace k @ tr, mepc_csr := mepc_csr k + 4\<rparr>) \<and>
         thr_bytes tr = [ucast (a0 frame)])) \<and>
    (a7 frame = SYS_GETC \<longrightarrow> (\<forall>r vs. received (uart_in k) = Some (r, vs) \<longrightarrow>
      (\<exists>tr. trap_handler frame k = Return (frame\<lparr>a0 := ucast (case r of None \<Rightarrow> 0xFF | Some b \<Rightarrow> b)\<rparr>)
         (k\<lparr>uart_in := vs, mmio_trace := mmio_trace k @ tr, mepc_csr := mepc_csr k + 4\<rparr>) \<and>
         thr_bytes tr = [])))"
  by (intro conjI impI allI; (rule putc_call_run [OF assms] getc_call_run [OF assms], assumption+)) blast+

theorem syscall_effect_witness:
  "\<exists>k'. trap_handler (zero_frame\<lparr>a7 := SYS_GETC\<rparr>)
      ((example_kernel [0x01, 0x41])\<lparr>mcause_csr := 8\<rparr>) = Return (zero_frame\<lparr>a7 := SYS_GETC, a0 := 0x41\<rparr>) k' \<and>
    mepc_csr k' = 4"
proof -
  let ?k = "(example_kernel [0x01, 0x41])\<lparr>mcause_csr := 8\<rparr>" and ?f = "zero_frame\<lparr>a7 := SYS_GETC\<rparr>"
  have "received (uart_in ?k) = Some (Some 0x41, [])" by (simp add: LSR_RX_READY_def)
  then show ?thesis
    using conjunct2 [OF syscall_effect [of ?k ?f], rule_format, of "Some 0x41" "[]"] by auto
qed


section \<open>Preemption and containment\<close>

lemma schedule_frame:
  assumes sched: "sched_inv k" and pmp: "length (pmpaddr_csr k) = 16" "task_entries_unlocked k"
    and ret: "schedule frame k = Return frame' k'"
  shows "TICK_COUNT k' = TICK_COUNT k \<and> mtimecmp k' = mtimecmp k \<and> mie_csr k' = mie_csr k \<and> mtime k' = mtime k"
proof (cases "select_next_ready MAX_TASKS (current (SCHEDULER k))
    (is_ready (save_current frame (mepc_csr k) (mstatus_csr k) (SCHEDULER k)))")
  case None
  then show ?thesis using schedule_none [OF sched None] ret by simp
next
  case (Some i)
  let ?k = "k\<lparr>SCHEDULER := mark_running i (save_current frame (mepc_csr k) (mstatus_csr k) (SCHEDULER k))\<rparr>"
  obtain t :: Task where t: "i < MAX_TASKS"
    "schedule frame k = apply_switch i (cfg_regions (pmp_config t)) (task_context t) frame ?k"
    by (rule schedule_some [OF sched Some])
  have i: "i < 4" and pmp': "length (pmpaddr_csr ?k) = 16" "task_entries_unlocked ?k"
    using t(1) pmp by (simp_all add: MAX_TASKS_def)
  have room: "length (switch_message i) \<le> tx_budget ?k"
  proof (rule ccontr)
    assume "\<not> length (switch_message i) \<le> tx_budget ?k"
    then show False
      by (rule apply_switch_hang [OF i, where regs = "cfg_regions (pmp_config t)" and
              c = "task_context t" and frame = frame]) (use ret t(2) in simp)
  qed
  show ?thesis
    by (rule apply_switch_run [OF i room pmp', where regs = "cfg_regions (pmp_config t)" and
              c = "task_context t" and frame = frame]) (use ret t(2) in auto)
qed

lemma timer_trap_run:
  assumes "mcause_csr k = interrupt_cause 7" "128 \<le> tx_budget k"
  obtains vs tr where "trap_handler frame k = schedule frame (k\<lparr>TICK_COUNT := \<lparr>inner = inner (TICK_COUNT k) + 1\<rparr>,
      uart_in := vs, mtimecmp := mtime k + 100000, mmio_trace := mmio_trace k @ tr\<rparr>)" "29 \<le> tx_ready vs"
proof -
  let ?k = "k\<lparr>TICK_COUNT := \<lparr>inner = inner (TICK_COUNT k) + 1\<rparr>\<rparr>" and ?n = "inner (TICK_COUNT k) + 1"
  let ?p = "if ?n mod 100 = 0 then println [''[timer] tick '', fmt_dec ?n] else skip"
  have run: "trap_handler frame k = then_comp ?p (then_comp schedule_next_tick (schedule frame)) ?k"
    using assms(1) interrupt_decode [of 7]
    by (simp add: trap_handler_run handle_interrupt_def then_comp_def bind_comp_def tick_runs)
  have "2 * (length (concat [''[timer] tick '', fmt_dec ?n]) + 1) \<le> tx_budget ?k"
    using assms(2) length_fmt(2) [of ?n] by (simp add: tx_budget_def)
  then obtain k1 where k1: "println [''[timer] tick '', fmt_dec ?n] ?k = Return () k1" "console_step ?k k1"
    "tx_budget ?k \<le> tx_budget k1 + 2 * (length (concat [''[timer] tick '', fmt_dec ?n]) + 1)"
    by (rule println_returns)
  have "\<exists>vs tr. ?p ?k = Return () (?k\<lparr>uart_in := vs, mmio_trace := mmio_trace ?k @ tr\<rparr>) \<and> 29 \<le> tx_ready vs"
  proof (cases "?n mod 100 = 0")
    case True
    from k1(2) obtain vs tr where k1_eq: "k1 = ?k\<lparr>uart_in := vs, mmio_trace := mmio_trace ?k @ tr\<rparr>"
      unfolding console_step_def by blast
    have "29 \<le> tx_ready vs" using k1(3) assms(2) length_fmt(2) [of ?n] unfolding k1_eq by (simp add: tx_budget_def)
    with True k1(1) k1_eq show ?thesis by auto
  next
    case False
    have "?k = ?k\<lparr>uart_in := uart_in k, mmio_trace := mmio_trace ?k @ []\<rparr>" by simp
    moreover have "29 \<le> tx_ready (uart_in k)" using assms(2) by (simp add: tx_budget_def)
    ultimately show ?thesis
      using False by (intro exI [of _ "uart_in k"] exI [of _ "[]"]) (simp add: skip_run)
  qed
  then obtain vs tr where p: "?p ?k = Return () (?k\<lparr>uart_in := vs, mmio_trace := mmio_trace ?k @ tr\<rparr>)" "29 \<le> tx_ready vs"
    by blast
  show ?thesis
    by (rule that [of "tr @ [MmioRead64 (CLINT_BASE + MTIME_OFFSET) (mtime k),
         MmioWrite64 (CLINT_BASE + MTIMECMP_OFFSET) (mtime k + 100000)]" vs])
      (simp_all add: run then_comp_def bind_comp_def p schedule_next_tick_run)
qed

text \<open>
  C13: A timer interrupt preempts and always returns when the transmitter has room: the tick
  counter grows by one, the timer is re-armed 10 ms ahead, the table is switched to the task the
  policy selects among the ready ones, no task's registers, program counter or status are lost,
  and the kernel's invariant holds again.
\<close>

theorem timer_interrupt_preempts:
  assumes inv: "kernel_inv L k" and cause: "mcause_csr k = interrupt_cause 7" and room: "128 \<le> tx_budget k"
  shows "\<exists>frame' k'. trap_handler frame k = Return frame' k' \<and> kernel_inv L k' \<and>
    inner (TICK_COUNT k') = inner (TICK_COUNT k) + 1 \<and> mtimecmp k' = mtime k + 100000 \<and>
    SCHEDULER k' = snd (dispatch (select_next_ready MAX_TASKS) frame (mepc_csr k) (mstatus_csr k) (SCHEDULER k)) \<and>
    (\<forall>i < MAX_TASKS. tasks (SCHEDULER k) ! i \<noteq> None \<longrightarrow>
       virtual_context (SCHEDULER k') (frame', mepc_csr k', mstatus_csr k') i =
       virtual_context (SCHEDULER k) (frame, mepc_csr k, mstatus_csr k) i)"
proof -
  obtain vs tr where run: "trap_handler frame k = schedule frame (k\<lparr>TICK_COUNT := \<lparr>inner = inner (TICK_COUNT k) + 1\<rparr>,
      uart_in := vs, mtimecmp := mtime k + 100000, mmio_trace := mmio_trace k @ tr\<rparr>)" "29 \<le> tx_ready vs"
    by (rule timer_trap_run [OF cause room])
  let ?k = "k\<lparr>TICK_COUNT := \<lparr>inner = inner (TICK_COUNT k) + 1\<rparr>,
      uart_in := vs, mtimecmp := mtime k + 100000, mmio_trace := mmio_trace k @ tr\<rparr>"
  have inv': "kernel_inv L ?k" using inv by simp
  then have sched: "sched_inv ?k" and pmp: "length (pmpaddr_csr ?k) = 16" "task_entries_unlocked ?k"
    by (simp_all only: kernel_inv_def kernel_entries_def)
  have "29 \<le> tx_budget ?k" using run(2) by (simp add: tx_budget_def)
  then obtain frame' k' where ret: "schedule frame ?k = Return frame' k'"
    by (rule schedule_returns [OF sched pmp])
  have frm: "inner (TICK_COUNT k') = inner (TICK_COUNT ?k)" "mtimecmp k' = mtimecmp ?k"
    using schedule_frame [OF sched pmp ret] by simp_all
  show ?thesis
    using ret run(1) schedule_kernel_inv [OF inv' ret] frm schedule_table [OF sched ret]
      schedule_virtual [OF sched ret]
    by (intro exI [of _ frame'] exI [of _ k']) simp
qed

theorem timer_interrupt_preempts_witness:
  "\<exists>frame' k'. trap_handler zero_frame
       ((example_kernel (replicate 128 0x20))\<lparr>mcause_csr := interrupt_cause 7\<rparr>) = Return frame' k' \<and>
     current (SCHEDULER k') = Some 2"
proof -
  let ?k = "(example_kernel (replicate 128 0x20))\<lparr>mcause_csr := interrupt_cause 7\<rparr>"
  have "kernel_inv linker_example ?k" "128 \<le> tx_budget ?k"
    using example_budget [of 128] by (simp_all add: example_kernel_inv tx_budget_def)
  moreover have "current (snd (dispatch (select_next_ready MAX_TASKS) zero_frame 0 0 example_sched)) = Some 2"
    by (simp add: dispatch_def Let_def example_select mark_running_def)
  ultimately show ?thesis
    using timer_interrupt_preempts [of linker_example ?k zero_frame] by auto
qed

lemma user_fault_run:
  assumes "\<not> bit (mcause_csr k) 63" "take_bit 63 (mcause_csr k) \<in> {1, 5, 7}" "mpp_of (mstatus_csr k) = 0"
    and room: "288 \<le> tx_budget k"
  obtains vs tr where "trap_handler frame k = kill_current frame (k\<lparr>uart_in := vs, mmio_trace := mmio_trace k @ tr\<rparr>)"
    "53 \<le> tx_ready vs"
proof -
  let ?c = "take_bit 63 (mcause_csr k)"
  let ?args = "[''[trap] U-mode access fault: '', fatal_name ?c, '' at mepc='', fmt_hex (mepc_csr k),
         '' addr='', fmt_hex (mtval_csr k)]"
  consider "?c = 1" | "?c = 5" | "?c = 7" using assms(2) by blast
  then have len: "length (fatal_name ?c) \<le> 24" and "trap_handler frame k = then_comp (println ?args) (kill_current frame) k"
    using assms(1,3)
    by (cases; simp add: trap_handler_run handle_exception_def handle_access_fault_def fatal_name_def
        read_mpp_def bind_comp_def csr_read_runs)+
  define n where "n = length (concat ?args)"
  have "n \<le> 103"
    unfolding n_def using len length_fmt(1) [of "mepc_csr k"] length_fmt(1) [of "mtval_csr k"] by simp
  then have n: "2 * (n + 1) \<le> tx_budget k" "2 * (n + 1) + 53 \<le> 288" using room by simp_all
  obtain k1 where k1: "println ?args k = Return () k1" "console_step k k1" "tx_budget k \<le> tx_budget k1 + 2 * (n + 1)"
    by (rule println_returns [OF n(1) [unfolded n_def], folded n_def])
  from k1(2) obtain vs tr where k1_eq: "k1 = k\<lparr>uart_in := vs, mmio_trace := mmio_trace k @ tr\<rparr>"
    unfolding console_step_def by blast
  have "53 \<le> tx_ready vs" using k1(3) n(2) room unfolding k1_eq tx_budget_def by simp
  then show ?thesis
    using \<open>trap_handler frame k = _\<close> k1(1) k1_eq
    by (intro that [of tr vs]) (simp_all add: then_comp_def bind_comp_def)
qed

lemma user_fault_returns:
  assumes inv: "kernel_inv L k" and cause: "\<not> bit (mcause_csr k) 63" "take_bit 63 (mcause_csr k) \<in> {1, 5, 7}"
    and user: "mpp_of (mstatus_csr k) = 0" and cur: "current (SCHEDULER k) = Some c"
    and room: "288 \<le> tx_budget k"
  obtains vs tr frame' k' where "trap_handler frame k = Return frame' k'" "kernel_inv L k'"
    "kill_current frame (k\<lparr>uart_in := vs, mmio_trace := mmio_trace k @ tr\<rparr>) = Return frame' k'"
proof -
  obtain vs tr where run: "trap_handler frame k = kill_current frame (k\<lparr>uart_in := vs, mmio_trace := mmio_trace k @ tr\<rparr>)"
    "53 \<le> tx_ready vs"
    by (rule user_fault_run [OF cause user room])
  let ?k = "k\<lparr>uart_in := vs, mmio_trace := mmio_trace k @ tr\<rparr>"
  have inv': "kernel_inv L ?k" using inv by simp
  then have sched: "sched_inv ?k" and pmp: "length (pmpaddr_csr ?k) = 16" "task_entries_unlocked ?k"
    by (simp_all only: kernel_inv_def kernel_entries_def)
  have cur': "current (SCHEDULER ?k) = Some c" using cur by simp
  have "53 \<le> tx_budget ?k" using run(2) by (simp add: tx_budget_def)
  then obtain frame' k' where ret: "kill_current frame ?k = Return frame' k'"
    by (rule kill_current_returns [OF sched cur' pmp])
  have "kernel_inv L k'" by (rule preservesD [OF preserves_kill_current inv' ret])
  with ret run(1) show ?thesis by (intro that) simp_all
qed

text \<open>
  C12: Faults are contained: an access fault of a user task always returns when the transmitter
  has room, with the faulting task dead, another task current unless none is ready or running,
  what every other task will next execute with unchanged, and the kernel's invariant restored.
\<close>

theorem user_fault_contained:
  assumes inv: "kernel_inv L k" and cause: "\<not> bit (mcause_csr k) 63" "take_bit 63 (mcause_csr k) \<in> {1, 5, 7}"
    and user: "mpp_of (mstatus_csr k) = 0" and cur: "current (SCHEDULER k) = Some c"
    and room: "288 \<le> tx_budget k"
  shows "\<exists>frame' k'. trap_handler frame k = Return frame' k' \<and> kernel_inv L k' \<and>
    (\<exists>t. tasks (SCHEDULER k') ! c = Some t \<and> task_state t = Dead) \<and>
    (current (SCHEDULER k') \<noteq> Some c \<or> (\<forall>j < MAX_TASKS. \<not> live_task (SCHEDULER k') j)) \<and>
    (\<forall>i < MAX_TASKS. i \<noteq> c \<longrightarrow> tasks (SCHEDULER k) ! i \<noteq> None \<longrightarrow>
       virtual_context (SCHEDULER k') (frame', mepc_csr k', mstatus_csr k') i =
       virtual_context (SCHEDULER k) (frame, mepc_csr k, mstatus_csr k) i)"
proof -
  obtain vs tr frame' k' where run: "trap_handler frame k = Return frame' k'" "kernel_inv L k'"
    "kill_current frame (k\<lparr>uart_in := vs, mmio_trace := mmio_trace k @ tr\<rparr>) = Return frame' k'"
    by (rule user_fault_returns [OF assms])
  let ?k = "k\<lparr>uart_in := vs, mmio_trace := mmio_trace k @ tr\<rparr>"
  have pre: "sched_inv ?k" "current (SCHEDULER ?k) = Some c" using inv cur by (simp_all add: kernel_inv_def)
  from run kill_current_dead [OF pre run(3)] kill_current_virtual [OF pre run(3)]
  show ?thesis by (intro exI [of _ frame'] exI [of _ k']) simp
qed

theorem user_fault_contained_witness:
  "\<exists>frame' k' t. trap_handler zero_frame
       ((example_kernel (replicate 288 0x20))\<lparr>mcause_csr := 7\<rparr>) = Return frame' k' \<and>
     tasks (SCHEDULER k') ! 1 = Some t \<and> task_state t = Dead"
proof -
  let ?k = "(example_kernel (replicate 288 0x20))\<lparr>mcause_csr := 7\<rparr>"
  have "kernel_inv linker_example ?k" "288 \<le> tx_budget ?k"
    using example_budget [of 288] by (simp_all add: example_kernel_inv tx_budget_def)
  moreover have "take_bit 63 (7 :: u64) = 7" "\<not> bit (7 :: u64) 63" by (simp_all add: exception_small)
  moreover have "mpp_of (mstatus_csr ?k) = 0" "current (SCHEDULER ?k) = Some 1"
    by (simp_all add: mpp_of_def example_sched_def)
  ultimately show ?thesis using user_fault_contained [of linker_example ?k 1 zero_frame] by auto
qed

end
