(* ===== verification/Machine.thy ===== *)
theory Machine
  imports Trap
begin

text \<open>
  The part of the RV64 instruction set that the assembly of \<open>crates/kernel/src/trap.rs\<close> and
  \<open>crates/kernel/src/main.rs\<close> uses: the integer registers, byte-addressed memory with
  little-endian doublewords, the entry into a trap and the return from it.
\<close>

section \<open>Memory\<close>

type_synonym memory = "u64 \<Rightarrow> u8"

definition load64 :: "memory \<Rightarrow> u64 \<Rightarrow> u64" where
  "load64 m a = fold (\<lambda>i w. w OR push_bit (8 * i) (ucast (m (a + of_nat i)))) [0..<8] 0"

definition store64 :: "memory \<Rightarrow> u64 \<Rightarrow> u64 \<Rightarrow> memory" where
  "store64 m a v = (\<lambda>x. if unat (x - a) < 8 then byte_of v (unat (x - a)) else m x)"

lemma bit_load64: "bit (load64 m a) n \<longleftrightarrow> n < 64 \<and> bit (m (a + of_nat (n div 8))) (n mod 8)"
proof -
  have fold_bit: "bit (fold (\<lambda>i w. w OR push_bit (8 * i) (ucast (m (a + of_nat i)))) is w :: u64) n \<longleftrightarrow>
      bit w n \<or> n < 64 \<and> (\<exists>i\<in>set is. 8 * i \<le> n \<and> n < 8 * i + 8 \<and> bit (m (a + of_nat i)) (n - 8 * i))"
    for "is" w
  proof (induction "is" arbitrary: w)
    case (Cons j js)
    have "bit (push_bit (8 * j) (ucast (m (a + of_nat j))) :: u64) n \<longleftrightarrow>
        n < 64 \<and> 8 * j \<le> n \<and> n < 8 * j + 8 \<and> bit (m (a + of_nat j)) (n - 8 * j)"
      by (auto simp: bit_simps dest: bit_imp_le_length)
    then show ?case by (simp add: Cons.IH bit_or_iff) blast
  qed simp
  have "(\<exists>i\<in>set [0..<8]. 8 * i \<le> n \<and> n < 8 * i + 8 \<and> bit (m (a + of_nat i)) (n - 8 * i)) \<longleftrightarrow>
      bit (m (a + of_nat (n div 8))) (n mod 8)" if "n < 64"
  proof -
    have i: "8 * i \<le> n \<and> n < 8 * i + 8 \<longleftrightarrow> i = n div 8" for i by auto
    have "n - 8 * (n div 8) = n mod 8" by (simp add: minus_mult_div_eq_mod)
    with that show ?thesis
      by (auto simp: i conj_assoc [symmetric] simp del: upt_rec_numeral)
  qed
  then show ?thesis unfolding load64_def fold_bit by auto
qed

lemma unat_small: "n < 2 ^ 64 \<Longrightarrow> unat (of_nat n :: u64) = n"
  by (simp add: unsigned_of_nat take_bit_nat_eq_self)

lemma load_store_same [simp]: "load64 (store64 m a v) a = v"
proof (rule bit_word_eqI)
  fix n
  assume n: "n < LENGTH(64)"
  have "unat (of_nat (n div 8) :: u64) = n div 8" using n by (intro unat_small) simp
  moreover have "n div 8 < 8" using n by (simp add: div_less_iff_less_mult)
  ultimately show "bit (load64 (store64 m a v) a) n = bit v n"
    using n by (simp add: bit_load64 store64_def byte_of_def bit_simps)
qed

definition apart :: "u64 \<Rightarrow> u64 \<Rightarrow> bool" where
  "apart a b \<longleftrightarrow> 8 \<le> unat (b - a) \<and> 8 \<le> unat (a - b)"

lemma load_store_apart:
  assumes "apart a b"
  shows "load64 (store64 m a v) b = load64 m b"
proof -
  have far: "8 \<le> unat (b + of_nat i - a)" if "i < 8" for i
  proof -
    have ab: "8 \<le> unat (b - a)" "8 \<le> unat (a - b)" using assms by (simp_all add: apart_def)
    have "unat (b - a) + unat (a - b) = 2 ^ 64"
      using ab by (auto simp: unat_sub_if_size word_size split: if_splits)
    with ab have "unat (b - a) + i < 2 ^ 64" using that by simp
    then have "unat (b - a + of_nat i) = unat (b - a) + i"
      using that by (simp add: unat_word_ariths(1) unat_small)
    moreover have "b + of_nat i - a = b - a + of_nat i" by simp
    ultimately show ?thesis using ab(1) by (simp only:)
  qed
  have "store64 m a v (b + of_nat (n div 8)) = m (b + of_nat (n div 8))" if "n < 64" for n
    using far [of "n div 8"] that by (simp add: store64_def div_less_iff_less_mult)
  then show ?thesis by (intro bit_word_eqI) (auto simp: bit_load64)
qed

lemma apart_offsets:
  assumes "i \<noteq> j" "i < 64" "j < 64"
  shows "apart (p + 8 * of_nat i) (p + 8 * of_nat j)"
proof -
  have d: "unat (8 * of_nat k :: u64) = 8 * k" if "k < 64" for k
    using that by (simp add: unat_word_ariths(2) unat_small)
  have "8 \<le> unat (8 * of_nat i - 8 * of_nat j :: u64)" if "i \<noteq> j" "i < 64" "j < 64" for i j
    using that unfolding unat_sub_if_size d [OF that(2)] d [OF that(3)] word_size by auto
  from this [OF assms] this [OF assms(1) [symmetric] assms(3,2)] show ?thesis
    by (simp add: apart_def)
qed

lemma store64_outside: "8 \<le> unat (x - a) \<Longrightarrow> store64 m a v x = m x"
  by (simp add: store64_def)

section \<open>Registers\<close>

datatype reg = RA | T0 | T1 | T2 | T3 | T4 | T5 | T6 | A0 | A1 | A2 | A3 | A4 | A5 | A6 | A7
  | S0 | S1 | S2 | S3 | S4 | S5 | S6 | S7 | S8 | S9 | S10 | S11 | GP | TP | SP

definition all_regs :: "reg list" where
  "all_regs = [RA, T0, T1, T2, T3, T4, T5, T6, A0, A1, A2, A3, A4, A5, A6, A7,
     S0, S1, S2, S3, S4, S5, S6, S7, S8, S9, S10, S11, GP, TP, SP]"

text \<open>The registers as an enumerable type, in the order of the trap frame.\<close>

instantiation reg :: enum
begin

definition enum_reg :: "reg list" where
  "enum_class.enum = all_regs"

definition enum_all_reg :: "(reg \<Rightarrow> bool) \<Rightarrow> bool" where
  "enum_class.enum_all P = list_all P all_regs"

definition enum_ex_reg :: "(reg \<Rightarrow> bool) \<Rightarrow> bool" where
  "enum_class.enum_ex P = list_ex P all_regs"

instance
proof
  have univ: "(UNIV :: reg set) = set all_regs"
  proof (rule set_eqI)
    show "r \<in> UNIV \<longleftrightarrow> r \<in> set all_regs" for r by (cases r) (simp_all add: all_regs_def)
  qed
  then show "(UNIV :: reg set) = set enum_class.enum" by (simp only: enum_reg_def)
  show "distinct (enum_class.enum :: reg list)" by (simp add: enum_reg_def all_regs_def)
  show "enum_class.enum_all P \<longleftrightarrow> Ball (UNIV :: reg set) P" "enum_class.enum_ex P \<longleftrightarrow> Bex (UNIV :: reg set) P" for P
    by (simp_all only: enum_all_reg_def enum_ex_reg_def univ list_all_iff list_ex_iff)
qed

end

lemma set_all_regs: "r \<in> set all_regs" and all_regs_distinct: "distinct all_regs"
  using in_enum [of r] enum_distinct [where 'a = reg] by (simp_all only: enum_reg_def)

text \<open>The registers a function call preserves, by the calling convention.\<close>

definition callee_saved :: "reg \<Rightarrow> bool" where
  "callee_saved r \<longleftrightarrow> r \<in> {S0, S1, S2, S3, S4, S5, S6, S7, S8, S9, S10, S11, GP, TP, SP}"

record cpu = kernel +
  gpr :: "reg \<Rightarrow> u64"
  mem :: memory
  pc :: u64
  priv :: privilege

section \<open>Traps\<close>

text \<open>
  Taking a trap records the cause, the interrupted program counter and privilege, stacks the
  interrupt enable and masks interrupts; \<open>mret\<close> undoes it.
\<close>

definition MPIE :: u64 where "MPIE = push_bit 7 1"
definition MPP :: u64 where "MPP = push_bit 11 3"

definition privilege_bits :: "privilege \<Rightarrow> u64" where
  "privilege_bits p = (case p of U_mode \<Rightarrow> 0 | M_mode \<Rightarrow> 3)"

definition entry_status :: "privilege \<Rightarrow> u64 \<Rightarrow> u64" where
  "entry_status p st = (st AND NOT (MIE OR MPIE OR MPP)) OR
     (if bit st 3 then MPIE else 0) OR push_bit 11 (privilege_bits p)"

definition return_status :: "u64 \<Rightarrow> u64" where
  "return_status st = (st AND NOT (MIE OR MPP)) OR (if bit st 7 then MIE else 0) OR MPIE"

definition return_privilege :: "u64 \<Rightarrow> privilege" where
  "return_privilege st = (if mpp_of st = 0 then U_mode else M_mode)"

definition take_trap :: "u64 \<Rightarrow> u64 \<Rightarrow> 'a cpu_scheme \<Rightarrow> 'a cpu_scheme" where
  "take_trap cause tval s = s\<lparr>mepc_csr := pc s, mcause_csr := cause, mtval_csr := tval,
     mstatus_csr := entry_status (priv s) (mstatus_csr s), priv := M_mode, pc := mtvec_csr s\<rparr>"

definition exec_mret :: "'a cpu_scheme \<Rightarrow> 'a cpu_scheme" where
  "exec_mret s = s\<lparr>pc := mepc_csr s, priv := return_privilege (mstatus_csr s),
     mstatus_csr := return_status (mstatus_csr s)\<rparr>"

lemma bit_3: "bit (3 :: u64) n \<longleftrightarrow> n < 2"
proof -
  have "(3 :: u64) = mask 2" by (simp add: mask_eq_exp_minus_1)
  then show ?thesis by (simp only: bit_mask_iff) auto
qed

lemma bit_mpp_of: "bit (mpp_of st) n \<longleftrightarrow> n < 2 \<and> bit st (11 + n)"
  unfolding mpp_of_def bit_and_iff bit_drop_bit_eq comp_def bit_3 by blast

lemma bit_status:
  "bit MIE n \<longleftrightarrow> n = 3" "bit MPIE n \<longleftrightarrow> n = 7" "bit MPP n \<longleftrightarrow> n = 11 \<or> n = 12"
  "bit (privilege_bits p) n \<longleftrightarrow> p = M_mode \<and> n < 2"
proof -
  show "bit MIE n \<longleftrightarrow> n = 3" "bit MPIE n \<longleftrightarrow> n = 7"
    unfolding MIE_def MPIE_def bit_push_bit_iff bit_1_iff by auto
  show "bit MPP n \<longleftrightarrow> n = 11 \<or> n = 12"
    unfolding MPP_def bit_push_bit_iff bit_3 by auto
  show "bit (privilege_bits p) n \<longleftrightarrow> p = M_mode \<and> n < 2"
    by (cases p) (simp_all only: privilege_bits_def privilege.case bit_3 bit_0_eq bot_apply, simp_all)
qed

lemma bit_entry_status:
  "n < 64 \<Longrightarrow> bit (entry_status p st) n \<longleftrightarrow>
     (if n = 3 then False else if n = 7 then bit st 3 else if n = 11 \<or> n = 12 then p = M_mode
      else bit st n)"
  by (auto simp: entry_status_def bit_or_iff bit_and_iff bit_not_iff bit_push_bit_iff bit_status)

lemma bit_return_status:
  "n < 64 \<Longrightarrow> bit (return_status st) n \<longleftrightarrow>
     (if n = 3 then bit st 7 else if n = 7 then True else if n = 11 \<or> n = 12 then False else bit st n)"
  by (auto simp: return_status_def bit_or_iff bit_and_iff bit_not_iff bit_status)

lemma mpp_entry_status [simp]: "mpp_of (entry_status p st) = privilege_bits p"
  by (rule bit_word_eqI) (auto simp: bit_mpp_of bit_entry_status bit_status less_2_cases_iff)

lemma return_privilege_entry [simp]: "return_privilege (entry_status p st) = p"
  by (cases p) (simp_all add: return_privilege_def privilege_bits_def)

text \<open>Returning directly after an entry resumes with the same interrupt enable.\<close>

lemma return_entry_MIE: "bit (return_status (entry_status p st)) 3 = bit st 3"
  by (simp add: bit_return_status bit_entry_status)

end
