(* ===== verification/Trap_Asm.thy ===== *)
theory Trap_Asm
  imports Machine
begin

text \<open>
  The assembly of \<open>crates/kernel/src/trap.rs\<close>: the trap vector and the context switch, as
  instruction lists over the registers and memory of theory \<open>Machine\<close>, and that the vector
  hands the interrupted program's registers to \<open>trap_handler\<close> and restores what it left.

  The compiled \<open>trap_handler\<close> is called by the calling convention: it works on the frame its
  argument points to, preserves the callee-saved registers, and may leave anything in the
  others and in memory outside the frame (\<open>junk\<close> and \<open>jmem\<close> below).
\<close>

section \<open>The frame in memory\<close>

text \<open>\<open>TrapFrame\<close> is \<open>repr(C)\<close>: the fields are consecutive doublewords.\<close>

primrec reg_index :: "reg \<Rightarrow> nat" where
  "reg_index RA = 0"
| "reg_index T0 = 1"
| "reg_index T1 = 2"
| "reg_index T2 = 3"
| "reg_index T3 = 4"
| "reg_index T4 = 5"
| "reg_index T5 = 6"
| "reg_index T6 = 7"
| "reg_index A0 = 8"
| "reg_index A1 = 9"
| "reg_index A2 = 10"
| "reg_index A3 = 11"
| "reg_index A4 = 12"
| "reg_index A5 = 13"
| "reg_index A6 = 14"
| "reg_index A7 = 15"
| "reg_index S0 = 16"
| "reg_index S1 = 17"
| "reg_index S2 = 18"
| "reg_index S3 = 19"
| "reg_index S4 = 20"
| "reg_index S5 = 21"
| "reg_index S6 = 22"
| "reg_index S7 = 23"
| "reg_index S8 = 24"
| "reg_index S9 = 25"
| "reg_index S10 = 26"
| "reg_index S11 = 27"
| "reg_index GP = 28"
| "reg_index TP = 29"
| "reg_index SP = 30"

primrec frame_reg :: "reg \<Rightarrow> 'a TrapFrame_scheme \<Rightarrow> u64" where
  "frame_reg RA f = ra f"
| "frame_reg T0 f = t0 f"
| "frame_reg T1 f = t1 f"
| "frame_reg T2 f = t2 f"
| "frame_reg T3 f = t3 f"
| "frame_reg T4 f = t4 f"
| "frame_reg T5 f = t5 f"
| "frame_reg T6 f = t6 f"
| "frame_reg A0 f = a0 f"
| "frame_reg A1 f = a1 f"
| "frame_reg A2 f = a2 f"
| "frame_reg A3 f = a3 f"
| "frame_reg A4 f = a4 f"
| "frame_reg A5 f = a5 f"
| "frame_reg A6 f = a6 f"
| "frame_reg A7 f = a7 f"
| "frame_reg S0 f = s0 f"
| "frame_reg S1 f = s1 f"
| "frame_reg S2 f = s2 f"
| "frame_reg S3 f = s3 f"
| "frame_reg S4 f = s4 f"
| "frame_reg S5 f = s5 f"
| "frame_reg S6 f = s6 f"
| "frame_reg S7 f = s7 f"
| "frame_reg S8 f = s8 f"
| "frame_reg S9 f = s9 f"
| "frame_reg S10 f = s10 f"
| "frame_reg S11 f = s11 f"
| "frame_reg GP f = gp f"
| "frame_reg TP f = tp f"
| "frame_reg SP f = sp f"

definition frame_of_regs :: "(reg \<Rightarrow> u64) \<Rightarrow> TrapFrame" where
  "frame_of_regs g = \<lparr>ra = g RA, t0 = g T0, t1 = g T1, t2 = g T2, t3 = g T3, t4 = g T4,
     t5 = g T5, t6 = g T6, a0 = g A0, a1 = g A1, a2 = g A2, a3 = g A3,
     a4 = g A4, a5 = g A5, a6 = g A6, a7 = g A7, s0 = g S0, s1 = g S1,
     s2 = g S2, s3 = g S3, s4 = g S4, s5 = g S5, s6 = g S6, s7 = g S7,
     s8 = g S8, s9 = g S9, s10 = g S10, s11 = g S11, gp = g GP, tp = g TP,
     sp = g SP\<rparr>"

abbreviation regs_of_frame :: "'a TrapFrame_scheme \<Rightarrow> reg \<Rightarrow> u64" where
  "regs_of_frame f \<equiv> \<lambda>r. frame_reg r f"

definition field_offset :: "reg \<Rightarrow> u64" where
  "field_offset r = 8 * of_nat (reg_index r)"

definition read_frame :: "memory \<Rightarrow> u64 \<Rightarrow> TrapFrame" where
  "read_frame m p = frame_of_regs (\<lambda>r. load64 m (p + field_offset r))"

definition save_regs :: "(reg \<Rightarrow> u64) \<Rightarrow> u64 \<Rightarrow> reg list \<Rightarrow> memory \<Rightarrow> memory" where
  "save_regs g p rs m = fold (\<lambda>r m. store64 m (p + field_offset r) (g r)) rs m"

definition write_frame :: "'a TrapFrame_scheme \<Rightarrow> u64 \<Rightarrow> memory \<Rightarrow> memory" where
  "write_frame f p m = save_regs (regs_of_frame f) p all_regs m"

lemma reg_index_bound: "reg_index r < 31"
  by (cases r) simp_all

text \<open>The size the source asserts at compile time: the frame fits the space the trap vector takes.\<close>

definition size_of_TrapFrame :: nat where
  "size_of_TrapFrame = 8 * length all_regs"

lemma trap_frame_fits: "size_of_TrapFrame = 248" "8 * reg_index r + 8 \<le> size_of_TrapFrame"
  using reg_index_bound [of r] by (simp_all add: size_of_TrapFrame_def all_regs_def)

lemma all_regs_index: "all_regs ! reg_index r = r"
  by (cases r) (simp_all add: all_regs_def)

lemma reg_index_inj: "reg_index r = reg_index q \<longleftrightarrow> r = q"
  by (metis all_regs_index)

lemma frame_reg_of_regs [simp]: "frame_reg r (frame_of_regs g) = g r"
  by (cases r) (simp_all add: frame_of_regs_def)

lemma frame_of_regs_reg [simp]: "frame_of_regs (regs_of_frame f) = f" for f :: TrapFrame
  by (simp add: frame_of_regs_def)

lemma load_save_regs:
  assumes "distinct rs"
  shows "load64 (save_regs g p rs m) (p + field_offset r) =
    (if r \<in> set rs then g r else load64 m (p + field_offset r))"
  using assms
proof (induction rs arbitrary: m)
  case (Cons q rs)
  have "load64 (store64 m (p + field_offset q) (g q)) (p + field_offset r) = load64 m (p + field_offset r)"
    if "r \<noteq> q"
  proof (rule load_store_apart)
    show "apart (p + field_offset q) (p + field_offset r)"
      unfolding field_offset_def
      using that reg_index_bound [of q] reg_index_bound [of r]
      by (intro apart_offsets) (simp_all add: reg_index_inj)
  qed
  with Cons show ?case by (auto simp: save_regs_def)
qed (simp add: save_regs_def)

lemma read_write_frame [simp]: "read_frame (write_frame f p m) p = f" for f :: TrapFrame
proof -
  note all_regs_distinct
  then show ?thesis
    by (simp add: read_frame_def write_frame_def load_save_regs set_all_regs)
qed

text \<open>Only the 248 bytes of the frame are written.\<close>

lemma save_regs_outside:
  assumes "248 \<le> unat (x - p)"
  shows "save_regs g p rs m x = m x"
proof -
  have "8 \<le> unat (x - (p + field_offset r))" for r
  proof -
    have "unat (field_offset r) = 8 * reg_index r"
      using reg_index_bound [of r] by (simp add: field_offset_def unat_word_ariths(2) unat_small)
    then have "unat ((x - p) - field_offset r) = unat (x - p) - 8 * reg_index r"
      using assms reg_index_bound [of r] by (subst unat_sub) (simp_all add: word_le_nat_alt)
    moreover have "x - (p + field_offset r) = (x - p) - field_offset r" by simp
    ultimately have "unat (x - (p + field_offset r)) = unat (x - p) - 8 * reg_index r" by (simp only:)
    then show ?thesis using assms reg_index_bound [of r] by linarith
  qed
  then show ?thesis by (induction rs arbitrary: m) (simp_all add: save_regs_def store64_outside)
qed

section \<open>Instructions\<close>

datatype csr = Mscratch | Mepc | Mstatus

datatype instr = Csrw csr reg | Csrr reg csr | Addi reg reg u64 | Mv reg reg
  | Sd reg u64 reg | Ld reg u64 reg | Call | Mret

primrec write_csr :: "csr \<Rightarrow> u64 \<Rightarrow> 'a cpu_scheme \<Rightarrow> 'a cpu_scheme" where
  "write_csr Mscratch v s = s\<lparr>mscratch_csr := v\<rparr>"
| "write_csr Mepc v s = s\<lparr>mepc_csr := v\<rparr>"
| "write_csr Mstatus v s = s\<lparr>mstatus_csr := v\<rparr>"

primrec read_csr :: "csr \<Rightarrow> 'a cpu_scheme \<Rightarrow> u64" where
  "read_csr Mscratch s = mscratch_csr s"
| "read_csr Mepc s = mepc_csr s"
| "read_csr Mstatus s = mstatus_csr s"

definition set_reg :: "reg \<Rightarrow> u64 \<Rightarrow> 'a cpu_scheme \<Rightarrow> 'a cpu_scheme" where
  "set_reg r v s = s\<lparr>gpr := (gpr s)(r := v)\<rparr>"

text \<open>\<open>callee\<close> is the function that the program's \<open>call\<close> names.\<close>

primrec exec :: "('a cpu_scheme, unit) comp \<Rightarrow> instr \<Rightarrow> ('a cpu_scheme, unit) comp" where
  "exec callee (Csrw c r) = modify (\<lambda>s. write_csr c (gpr s r) s)"
| "exec callee (Csrr r c) = modify (\<lambda>s. set_reg r (read_csr c s) s)"
| "exec callee (Addi r q i) = modify (\<lambda>s. set_reg r (gpr s q + i) s)"
| "exec callee (Mv r q) = modify (\<lambda>s. set_reg r (gpr s q) s)"
| "exec callee (Sd r off q) = modify (\<lambda>s. s\<lparr>mem := store64 (mem s) (gpr s q + off) (gpr s r)\<rparr>)"
| "exec callee (Ld r off q) = modify (\<lambda>s. set_reg r (load64 (mem s) (gpr s q + off)) s)"
| "exec callee Call = callee"
| "exec callee Mret = modify exec_mret"

definition run_program :: "('a cpu_scheme, unit) comp \<Rightarrow> instr list \<Rightarrow> ('a cpu_scheme, unit) comp" where
  "run_program callee prog = block (map (exec callee) prog)"

section \<open>The code\<close>

definition trap_vector_code :: "instr list" where
  "trap_vector_code = [
     Csrw Mscratch SP, Addi SP SP (-256), Sd RA 0 SP, Sd T0 8 SP, Sd T1 16 SP, Sd T2 24 SP,
     Sd T3 32 SP, Sd T4 40 SP, Sd T5 48 SP, Sd T6 56 SP, Sd A0 64 SP, Sd A1 72 SP, Sd A2 80 SP,
     Sd A3 88 SP, Sd A4 96 SP, Sd A5 104 SP, Sd A6 112 SP, Sd A7 120 SP, Sd S0 128 SP,
     Sd S1 136 SP, Sd S2 144 SP, Sd S3 152 SP, Sd S4 160 SP, Sd S5 168 SP, Sd S6 176 SP,
     Sd S7 184 SP, Sd S8 192 SP, Sd S9 200 SP, Sd S10 208 SP, Sd S11 216 SP, Sd GP 224 SP,
     Sd TP 232 SP, Csrr T0 Mscratch, Sd T0 240 SP, Mv A0 SP, Call, Ld RA 0 SP, Ld T0 8 SP,
     Ld T1 16 SP, Ld T2 24 SP, Ld T3 32 SP, Ld T4 40 SP, Ld T5 48 SP, Ld T6 56 SP, Ld A0 64 SP,
     Ld A1 72 SP, Ld A2 80 SP, Ld A3 88 SP, Ld A4 96 SP, Ld A5 104 SP, Ld A6 112 SP,
     Ld A7 120 SP, Ld S0 128 SP, Ld S1 136 SP, Ld S2 144 SP, Ld S3 152 SP, Ld S4 160 SP,
     Ld S5 168 SP, Ld S6 176 SP, Ld S7 184 SP, Ld S8 192 SP, Ld S9 200 SP, Ld S10 208 SP,
     Ld S11 216 SP, Ld GP 224 SP, Ld TP 232 SP, Ld SP 240 SP, Mret]"

definition context_switch_code :: "instr list" where
  "context_switch_code = [
     Sd RA 0 A0, Sd T0 8 A0, Sd T1 16 A0, Sd T2 24 A0, Sd T3 32 A0, Sd T4 40 A0, Sd T5 48 A0,
     Sd T6 56 A0, Sd A0 64 A0, Sd A1 72 A0, Sd A2 80 A0, Sd A3 88 A0, Sd A4 96 A0,
     Sd A5 104 A0, Sd A6 112 A0, Sd A7 120 A0, Sd S0 128 A0, Sd S1 136 A0, Sd S2 144 A0,
     Sd S3 152 A0, Sd S4 160 A0, Sd S5 168 A0, Sd S6 176 A0, Sd S7 184 A0, Sd S8 192 A0,
     Sd S9 200 A0, Sd S10 208 A0, Sd S11 216 A0, Sd GP 224 A0, Sd TP 232 A0, Sd SP 240 A0,
     Ld T0 248 A1, Csrw Mepc T0, Ld T0 256 A1, Csrw Mstatus T0, Ld RA 0 A1, Ld T0 8 A1,
     Ld T1 16 A1, Ld T2 24 A1, Ld T3 32 A1, Ld T4 40 A1, Ld T5 48 A1, Ld T6 56 A1, Ld A0 64 A1,
     Ld A2 80 A1, Ld A3 88 A1, Ld A4 96 A1, Ld A5 104 A1, Ld A6 112 A1, Ld A7 120 A1,
     Ld S0 128 A1, Ld S1 136 A1, Ld S2 144 A1, Ld S3 152 A1, Ld S4 160 A1, Ld S5 168 A1,
     Ld S6 176 A1, Ld S7 184 A1, Ld S8 192 A1, Ld S9 200 A1, Ld S10 208 A1, Ld S11 216 A1,
     Ld GP 224 A1, Ld TP 232 A1, Ld SP 240 A1, Ld A1 72 A1, Mret]"

definition call_trap_handler ::
  "(reg \<Rightarrow> u64) \<Rightarrow> memory \<Rightarrow> ('a cpu_scheme, unit) comp"
where
  "call_trap_handler junk jmem s =
     (case trap_handler (read_frame (mem s) (gpr s A0)) s of
        Return f s' \<Rightarrow> Return () (s'\<lparr>gpr := (\<lambda>r. if callee_saved r then gpr s r else junk r),
          mem := write_frame f (gpr s A0) jmem\<rparr>)
      | Panic i s' \<Rightarrow> Panic i s'
      | Hang s' \<Rightarrow> Hang s')"

definition trap_vector :: "(reg \<Rightarrow> u64) \<Rightarrow> memory \<Rightarrow> ('a cpu_scheme, unit) comp" where
  "trap_vector junk jmem = run_program (call_trap_handler junk jmem) trap_vector_code"

section \<open>Kernel code does not see the program's registers\<close>

text \<open>
  \<open>blind u m\<close>: changing the state by \<open>u\<close> before the computation is the same as changing it
  after. All kernel routines are blind to the integer registers, the memory and \<open>mscratch\<close>
  of the interrupted program, which only the assembly touches.
\<close>

definition blind :: "('s \<Rightarrow> 's) \<Rightarrow> ('s, 'a) comp \<Rightarrow> bool" where
  "blind u m \<longleftrightarrow> (\<forall>s. m (u s) = map_outcome id u (m s))"

named_theorems blind_intros \<open>computations that commute with a change of state\<close>

lemma blind_ret [blind_intros]: "blind u (ret a)" "blind u skip"
  by (simp_all add: blind_def ret_def skip_def)

lemma blind_panic [blind_intros]: "blind u (panic_at f l m)"
  by (simp add: blind_def panic_at_def)

lemma blind_gets: "(\<And>s. f (u s) = f s) \<Longrightarrow> blind u (gets f)"
  by (simp add: blind_def gets_def)

lemma blind_modify: "(\<And>s. f (u s) = u (f s)) \<Longrightarrow> blind u (modify f)"
  by (simp add: blind_def modify_def)

lemma blind_bind [blind_intros]:
  assumes "blind u m" "\<And>a. blind u (f a)"
  shows "blind u (bind_comp m f)"
  unfolding blind_def
proof
  fix s
  show "bind_comp m f (u s) = map_outcome id u (bind_comp m f s)"
    using assms by (cases "m s") (simp_all add: bind_comp_def blind_def)
qed

lemma blind_then [blind_intros]: "blind u m \<Longrightarrow> blind u n \<Longrightarrow> blind u (then_comp m n)"
  unfolding then_comp_def by (rule blind_bind)

lemma blind_if [blind_intros]: "blind u m \<Longrightarrow> blind u n \<Longrightarrow> blind u (if b then m else n)"
  by simp

lemma blind_block [blind_intros]: "(\<And>m. m \<in> set ms \<Longrightarrow> blind u m) \<Longrightarrow> blind u (block ms)"
  by (induction ms) (auto intro: blind_intros)

abbreviation set_regs :: "(reg \<Rightarrow> u64) \<Rightarrow> memory \<Rightarrow> u64 \<Rightarrow> 'a cpu_scheme \<Rightarrow> 'a cpu_scheme" where
  "set_regs g m w s \<equiv> s\<lparr>gpr := g, mem := m, mscratch_csr := w\<rparr>"

lemma blind_csr [blind_intros]:
  "blind (set_regs g m w) mstatus_read" "blind (set_regs g m w) mepc_read"
  "blind (set_regs g m w) mcause_read" "blind (set_regs g m w) mtval_read"
  "blind (set_regs g m w) mstatus_read_mpp"
  "blind (set_regs g m w) (mstatus_write v)" "blind (set_regs g m w) (mstatus_set_bits v)"
  "blind (set_regs g m w) (mstatus_clear_bits v)" "blind (set_regs g m w) (mepc_write v)"
  by (auto simp: blind_def csr_read_runs csr_write_runs intro!: cpu.equality)

lemma blind_read8 [blind_intros]: "blind (set_regs g m w) (read_volatile8 a)"
  by (auto simp: blind_def read_volatile8_def split: list.splits intro!: cpu.equality)

lemma blind_write8 [blind_intros]: "blind (set_regs g m w) (write_volatile8 a v)"
  by (auto simp: blind_def write_volatile8_run intro!: cpu.equality)

lemma blind_spin [blind_intros]: "blind (set_regs g m w) (spin_lsr flag)"
  by (auto simp: blind_def spin_lsr_eq simp del: dropWhile_eq_Nil_conv split: list.splits intro!: cpu.equality)

lemma blind_putc [blind_intros]: "blind (set_regs g m w) (putc c)"
  unfolding putc_def by (intro blind_intros)

lemma blind_puts [blind_intros]: "blind (set_regs g m w) (puts s)"
  unfolding puts_def by (intro blind_intros) (auto simp: puts_byte_def intro: blind_intros)

lemma blind_fill [blind_intros]: "blind u (fill_dec n buf i)"
proof (induction n buf i rule: fill_dec.induct)
  case (1 n buf i)
  then show ?case by (subst fill_dec.simps) (auto intro: blind_intros)
qed

lemma blind_drain [blind_intros]: "blind (set_regs g m w) (drain l buf k)"
  by (induction k) (auto intro: blind_intros)

lemma blind_put_dec [blind_intros]: "blind (set_regs g m w) (put_dec n)"
  unfolding put_dec_def by (auto intro!: blind_intros split: prod.splits)

lemma blind_println [blind_intros]: "blind (set_regs g m w) (println args)"
proof -
  have "blind (set_regs g m w) (block (map puts (args @ [newline])))"
    by (rule blind_block) (auto intro: blind_puts)
  then show ?thesis by (simp only: println_def print_def print_args_def uart.write_fmt_block)
qed

lemma blind_with_lock [blind_intros]:
  "blind (set_regs g m w) f \<Longrightarrow> blind (set_regs g m w) (with_lock f)"
  unfolding with_lock_def by (intro blind_intros)

lemma blind_pmp [blind_intros]:
  "blind (set_regs g m w) read_pmpcfg0" "blind (set_regs g m w) (write_pmpcfg0 v)"
  "blind (set_regs g m w) (write_pmpcfg2 v)"
  by (auto simp: blind_def pmp_access_runs intro!: cpu.equality)

lemma addr_locked_regs: "addr_locked (set_regs g m w s) i = addr_locked s i"
  by (simp add: addr_locked_def entry_cfg_def)

lemma blind_write_pmpaddr [blind_intros]: "blind (set_regs g m w) (write_pmpaddr i v)"
proof -
  have "blind (set_regs g m w) (csrw_pmpaddr i v)"
    unfolding csrw_pmpaddr_def by (intro blind_modify) (auto simp: addr_locked_regs intro: cpu.equality)
  then show ?thesis unfolding write_pmpaddr_def by (intro blind_intros)
qed

lemma blind_load [blind_intros]: "blind (set_regs g m w) (load_entries regs is acc)"
  by (induction "is" arbitrary: acc)
    (auto simp: load_entry_def Let_def intro!: blind_intros split: prod.splits)

lemma blind_load_task_config [blind_intros]: "blind (set_regs g m w) (load_task_config regs)"
  unfolding load_task_config_def Let_def by (auto intro!: blind_intros split: prod.splits)

lemma blind_scheduler [blind_intros]:
  "blind (set_regs g m w) (gets SCHEDULER)"
  "blind (set_regs g m w) (modify (set_SCHEDULER st))"
  by (auto simp: blind_def gets_def modify_def intro!: cpu.equality)

lemma blind_schedule [blind_intros]: "blind (set_regs g m w) (schedule frame)"
  unfolding schedule_def schedule_with_def schedule_locked_def scheduler_closure_def on_cell_def
    apply_switch_def
  by (auto intro!: blind_intros split: option.splits prod.splits)

lemma blind_kill_current [blind_intros]: "blind (set_regs g m w) (kill_current frame)"
proof -
  have "blind (set_regs g m w) kill_locked"
    unfolding kill_locked_def by (auto intro!: blind_intros split: option.splits simp del: block.simps)
  then show ?thesis unfolding kill_current_def by (intro blind_intros)
qed

lemma blind_timer [blind_intros]:
  "blind (set_regs g m w) increment_tick" "blind (set_regs g m w) get_tick_count"
  "blind (set_regs g m w) schedule_next_tick"
  by (auto simp: blind_def tick_runs schedule_next_tick_run intro!: cpu.equality)

lemma blind_trap_handler: "blind (set_regs g m w) (trap_handler frame)"
  unfolding trap_handler_def handle_interrupt_def handle_exception_def handle_access_fault_def
    handle_syscall_def panic_exception_def try_getc_def read_mcause_def read_mepc_def read_mtval_def
    read_mpp_def write_mepc_def Let_def
  by (intro blind_intros)


section \<open>Running the trap vector\<close>

lemma run_Nil: "run_program callee [] s = Return () s"
  by (simp add: run_program_def skip_run)

lemma run_append: "run_program callee (p @ q) s = then_comp (run_program callee p) (run_program callee q) s"
  by (simp add: run_program_def block_append)

lemma run_step:
  "exec callee i s = Return () s' \<Longrightarrow> run_program callee (i # p) s = run_program callee p s'"
  by (simp add: run_program_def then_comp_def bind_comp_def)

lemma run_Cons:
  "run_program callee (Csrw c r # p) s = run_program callee p (write_csr c (gpr s r) s)"
  "run_program callee (Csrr r c # p) s = run_program callee p (set_reg r (read_csr c s) s)"
  "run_program callee (Addi r q i # p) s = run_program callee p (set_reg r (gpr s q + i) s)"
  "run_program callee (Mv r q # p) s = run_program callee p (set_reg r (gpr s q) s)"
  "run_program callee (Sd r off q # p) s =
     run_program callee p (s\<lparr>mem := store64 (mem s) (gpr s q + off) (gpr s r)\<rparr>)"
  "run_program callee (Ld r off q # p) s =
     run_program callee p (set_reg r (load64 (mem s) (gpr s q + off)) s)"
  "run_program callee (Mret # p) s = run_program callee p (exec_mret s)"
  by (simp_all add: run_program_def then_comp_def bind_comp_def modify_def)

lemma run_saves:
  "run_program callee (map (\<lambda>r. Sd r (field_offset r) b) rs @ p) s =
     run_program callee p (s\<lparr>mem := save_regs (gpr s) (gpr s b) rs (mem s)\<rparr>)"
  by (induction rs arbitrary: s) (simp_all add: run_Cons save_regs_def)

lemma run_loads:
  assumes "b \<notin> set rs"
  shows "run_program callee (map (\<lambda>r. Ld r (field_offset r) b) rs @ p) s =
     run_program callee p (s\<lparr>gpr := (\<lambda>r. if r \<in> set rs then load64 (mem s) (gpr s b + field_offset r)
       else gpr s r)\<rparr>)"
  using assms
proof (induction rs arbitrary: s)
  case (Cons q rs)
  then show ?case
    by (auto simp: run_Cons set_reg_def fun_eq_iff intro!: arg_cong [of _ _ "run_program callee p"] cpu.equality)
qed simp

definition saved_regs :: "reg list" where
  "saved_regs = butlast all_regs"

lemma trap_vector_layout:
  "trap_vector_code = [Csrw Mscratch SP, Addi SP SP (-256)] @ map (\<lambda>r. Sd r (field_offset r) SP) saved_regs @
     [Csrr T0 Mscratch, Sd T0 (field_offset SP) SP, Mv A0 SP, Call] @
     map (\<lambda>r. Ld r (field_offset r) SP) saved_regs @ [Ld SP (field_offset SP) SP, Mret]"
  by (simp add: trap_vector_code_def saved_regs_def all_regs_def field_offset_def)

lemma saved_regs_set: "r \<in> set saved_regs \<longleftrightarrow> r \<noteq> SP"
  by (cases r) (simp_all add: saved_regs_def all_regs_def)

lemma saved_regs_distinct: "distinct saved_regs"
  by (simp add: saved_regs_def all_regs_def)

text \<open>At the call the frame holds the interrupted program's registers.\<close>

definition entry_memory :: "'a cpu_scheme \<Rightarrow> memory" where
  "entry_memory s = save_regs (gpr s) (gpr s SP - 256) all_regs (mem s)"

lemma entry_memory_saves:
  "entry_memory s = store64 (save_regs (gpr s) (gpr s SP - 256) saved_regs (mem s))
     (gpr s SP - 256 + field_offset SP) (gpr s SP)"
proof -
  have regs: "all_regs = saved_regs @ [SP]" by (simp add: saved_regs_def all_regs_def)
  show ?thesis unfolding entry_memory_def save_regs_def regs by simp
qed

lemma read_entry_frame: "read_frame (entry_memory s) (gpr s SP - 256) = frame_of_regs (gpr s)"
proof -
  note all_regs_distinct
  then show ?thesis by (simp add: read_frame_def entry_memory_def load_save_regs set_all_regs)
qed

text \<open>The instructions before the call leave the frame below the stack pointer, and its address in \<open>a0\<close>.\<close>

definition trap_prologue :: "instr list" where
  "trap_prologue = takeWhile (\<lambda>i. i \<noteq> Call) trap_vector_code"

lemma trap_vector_split:
  "trap_vector_code = trap_prologue @ Call #
     map (\<lambda>r. Ld r (field_offset r) SP) saved_regs @ [Ld SP (field_offset SP) SP, Mret]"
  by (simp add: trap_prologue_def trap_vector_layout saved_regs_def all_regs_def)

lemma trap_prologue_layout:
  "trap_prologue = [Csrw Mscratch SP, Addi SP SP (-256)] @ map (\<lambda>r. Sd r (field_offset r) SP) saved_regs @
     [Csrr T0 Mscratch, Sd T0 (field_offset SP) SP, Mv A0 SP]"
  using trap_vector_split by (simp add: trap_vector_layout)

lemma trap_prologue_run:
  fixes s :: "'a cpu_scheme"
  defines "p \<equiv> gpr s SP - 256"
  shows "run_program callee trap_prologue s =
    Return () (set_regs ((gpr s)(SP := p, T0 := gpr s SP, A0 := p)) (entry_memory s) (gpr s SP) s)"
proof -
  have "save_regs ((gpr s)(SP := p)) q saved_regs m = save_regs (gpr s) q saved_regs m" for q m
    unfolding save_regs_def by (intro fold_cong) (auto simp: saved_regs_set)
  then show ?thesis
    by (auto simp: trap_prologue_layout run_Cons run_Nil run_saves set_reg_def entry_memory_saves p_def
        intro!: cpu.equality)
qed

lemma trap_vector_entry:
  fixes s :: "'a cpu_scheme"
  defines "p \<equiv> gpr s SP - 256"
  shows "trap_vector junk jmem s =
    then_comp (call_trap_handler junk jmem)
      (run_program (call_trap_handler junk jmem)
        (map (\<lambda>r. Ld r (field_offset r) SP) saved_regs @ [Ld SP (field_offset SP) SP, Mret]))
      (set_regs ((gpr s)(SP := p, T0 := gpr s SP, A0 := p)) (entry_memory s) (gpr s SP) s)"
proof -
  have "run_program callee (Call # q) = then_comp callee (run_program callee q)"
    for callee :: "('a cpu_scheme, unit) comp" and q
    by (simp add: run_program_def)
  then show ?thesis
    unfolding trap_vector_def trap_vector_split run_append [of _ trap_prologue] p_def
    by (simp only: then_comp_def [of "run_program _ trap_prologue"] bind_comp_def trap_prologue_run outcome.case)
qed

lemma trap_vector_exit:
  assumes sp: "gpr s SP = p" and m: "mem s = write_frame f p m'"
  shows "run_program callee (map (\<lambda>r. Ld r (field_offset r) SP) saved_regs @ [Ld SP (field_offset SP) SP, Mret]) s =
    Return () (exec_mret (s\<lparr>gpr := regs_of_frame f\<rparr>))"
proof -
  note all_regs_distinct
  then have load: "load64 (mem s) (gpr s SP + field_offset r) = frame_reg r f" for r
    unfolding sp m write_frame_def by (simp add: load_save_regs set_all_regs)
  have "(\<lambda>r. if r = SP then frame_reg SP f else regs_of_frame f r) = regs_of_frame f" by auto
  moreover have "SP \<notin> set saved_regs" by (simp add: saved_regs_set)
  note run_loads [OF this, of callee "[Ld SP (field_offset SP) SP, Mret]" s]
  ultimately show ?thesis
    by (simp add: load saved_regs_set run_Cons run_Nil set_reg_def fun_upd_def cong: if_cong)
qed

lemma trap_vector_call:
  fixes s :: "'a cpu_scheme"
  defines "p \<equiv> gpr s SP - 256"
  defines "u \<equiv> set_regs ((gpr s)(SP := p, T0 := gpr s SP, A0 := p)) (entry_memory s) (gpr s SP)"
  shows "call_trap_handler junk jmem (u s) =
      (case trap_handler (frame_of_regs (gpr s)) s of
        Return f s' \<Rightarrow> Return () (u s'\<lparr>gpr := (\<lambda>r. if callee_saved r then gpr (u s) r else junk r),
          mem := write_frame f p jmem\<rparr>)
      | Panic i s' \<Rightarrow> Panic i (u s')
      | Hang s' \<Rightarrow> Hang (u s'))"
proof -
  have "trap_handler (frame_of_regs (gpr s)) (u s) = map_outcome id u (trap_handler (frame_of_regs (gpr s)) s)"
    unfolding u_def by (rule blind_trap_handler [unfolded blind_def, rule_format])
  then show ?thesis
    by (simp add: call_trap_handler_def u_def p_def read_entry_frame cong: if_cong split: outcome.splits)
qed

lemma trap_vector_returns:
  assumes "trap_handler (frame_of_regs (gpr s)) s = Return f s'"
  shows "trap_vector junk jmem s = Return () (exec_mret (s'\<lparr>gpr := regs_of_frame f,
    mem := write_frame f (gpr s SP - 256) jmem, mscratch_csr := gpr s SP\<rparr>))"
proof -
  let ?p = "gpr s SP - 256"
  let ?u = "set_regs ((gpr s)(SP := ?p, T0 := gpr s SP, A0 := ?p)) (entry_memory s) (gpr s SP)"
  let ?s2 = "?u s'\<lparr>gpr := (\<lambda>r. if callee_saved r then gpr (?u s) r else junk r), mem := write_frame f ?p jmem\<rparr>"
  have "gpr ?s2 SP = ?p" "mem ?s2 = write_frame f ?p jmem" by (simp_all add: callee_saved_def)
  note restore = trap_vector_exit [OF this, of "call_trap_handler junk jmem"]
  have "?s2\<lparr>gpr := regs_of_frame f\<rparr> =
      s'\<lparr>gpr := regs_of_frame f, mem := write_frame f ?p jmem, mscratch_csr := gpr s SP\<rparr>"
    by (rule cpu.equality) simp_all
  with trap_vector_call [of junk jmem s] assms restore show ?thesis
    unfolding trap_vector_entry then_comp_def bind_comp_def by (simp only: outcome.case)
qed

lemma trap_vector_stops:
  defines "u s \<equiv> set_regs ((gpr s)(SP := gpr s SP - 256, T0 := gpr s SP, A0 := gpr s SP - 256))
    (entry_memory s) (gpr s SP)"
  shows "trap_handler (frame_of_regs (gpr s)) s = Panic i s' \<Longrightarrow> trap_vector junk jmem s = Panic i (u s s')"
    and "trap_handler (frame_of_regs (gpr s)) s = Hang s' \<Longrightarrow> trap_vector junk jmem s = Hang (u s s')"
  using trap_vector_call [of junk jmem s] by (simp_all add: trap_vector_entry then_comp_def bind_comp_def u_def)

text \<open>
  C7: The trap vector implements the handler on frames. Whatever registers the interrupted program
  has, and whatever the compiled handler leaves in the registers and memory it may use, running
  the vector is the same as calling \<open>trap_handler\<close> on the frame of the interrupted registers:
  when the handler returns, all 31 registers are those of the frame it handed back and \<open>mret\<close>
  resumes at the program counter and privilege it left in the CSRs; when it panics or keeps
  polling, so does the vector.
\<close>

theorem trap_vector_refines:
  "trap_vector junk jmem s =
    (case trap_handler (frame_of_regs (gpr s)) s of
       Return f s' \<Rightarrow> Return () (exec_mret (s'\<lparr>gpr := regs_of_frame f,
         mem := write_frame f (gpr s SP - 256) jmem, mscratch_csr := gpr s SP\<rparr>))
     | Panic i s' \<Rightarrow> Panic i (s'\<lparr>gpr := (gpr s)(SP := gpr s SP - 256, T0 := gpr s SP, A0 := gpr s SP - 256),
         mem := entry_memory s, mscratch_csr := gpr s SP\<rparr>)
     | Hang s' \<Rightarrow> Hang (s'\<lparr>gpr := (gpr s)(SP := gpr s SP - 256, T0 := gpr s SP, A0 := gpr s SP - 256),
         mem := entry_memory s, mscratch_csr := gpr s SP\<rparr>))"
  by (cases "trap_handler (frame_of_regs (gpr s)) s") (simp_all add: trap_vector_returns trap_vector_stops)

section \<open>The context switch\<close>

definition read_context :: "memory \<Rightarrow> u64 \<Rightarrow> TaskContext" where
  "read_context m p = TrapFrame.extend (read_frame m p)
     \<lparr>mepc = load64 m (p + 248), mstatus = load64 m (p + 256)\<rparr>"

text \<open>
  \<open>do_context_switch_asm\<close> gets its arguments in \<open>a0\<close> and \<open>a1\<close>; \<open>g\<close> are the registers
  at that call. The program has no call of its own.
\<close>

definition do_context_switch_asm :: "('a cpu_scheme, unit) comp" where
  "do_context_switch_asm = run_program skip context_switch_code"

definition context_switch :: "u64 \<Rightarrow> u64 \<Rightarrow> (reg \<Rightarrow> u64) \<Rightarrow> ('a cpu_scheme, unit) comp" where
  "context_switch old new g = block [
     modify (\<lambda>s. s\<lparr>mem := store64 (mem s) (old + 248) (mepc_csr s)\<rparr>),
     modify (\<lambda>s. s\<lparr>mem := store64 (mem s) (old + 256) (mstatus_csr s)\<rparr>),
     modify (\<lambda>s. s\<lparr>gpr := g(A0 := old, A1 := new)\<rparr>),
     do_context_switch_asm]"

definition contexts_disjoint :: "u64 \<Rightarrow> u64 \<Rightarrow> bool" where
  "contexts_disjoint p q \<longleftrightarrow> 264 \<le> unat (q - p) \<and> 264 \<le> unat (p - q)"

lemma apart_disjoint:
  assumes "contexts_disjoint p q" "unat i \<le> 256" "unat j \<le> 256"
  shows "apart (p + i) (q + j)"
proof -
  have far: "8 \<le> unat ((b + j) - (a + i))"
    if "264 \<le> unat (b - a)" "264 \<le> unat (a - b)" "unat i \<le> 256" "unat j \<le> 256" for a b i j :: u64
  proof -
    have "unat (b - a) + unat (a - b) = 2 ^ 64"
      using that(1,2) by (auto simp: unat_sub_if_size word_size split: if_splits)
    then have "unat (b - a + j) = unat (b - a) + unat j"
      using that by (simp add: unat_word_ariths(1))
    moreover from this have "unat (b - a + j - i) = unat (b - a + j) - unat i"
      using that by (intro unat_sub) (simp add: word_le_nat_alt)
    moreover have "(b + j) - (a + i) = b - a + j - i" by simp
    ultimately have "unat ((b + j) - (a + i)) = unat (b - a) + unat j - unat i" by (simp only:)
    then show ?thesis using that by linarith
  qed
  show ?thesis
    using far [of q p i j] far [of p q j i] assms by (simp add: apart_def contexts_disjoint_def)
qed

lemma field_offset_bound: "unat (field_offset r) \<le> 240"
  using reg_index_bound [of r] by (simp add: field_offset_def unat_word_ariths(2) unat_small)

lemma load_save_disjoint:
  assumes "contexts_disjoint p q" "unat j \<le> 256"
  shows "load64 (save_regs g p rs m) (q + j) = load64 m (q + j)"
proof (induction rs arbitrary: m)
  case (Cons r rs)
  have "apart (p + field_offset r) (q + j)"
    using field_offset_bound [of r] by (intro apart_disjoint assms) simp
  then show ?case using Cons by (simp add: save_regs_def load_store_apart)
qed (simp add: save_regs_def)

lemma context_switch_layout:
  "context_switch_code = map (\<lambda>r. Sd r (field_offset r) A0) all_regs @
     [Ld T0 248 A1, Csrw Mepc T0, Ld T0 256 A1, Csrw Mstatus T0] @
     map (\<lambda>r. Ld r (field_offset r) A1) (filter (\<lambda>r. r \<noteq> A1) all_regs) @ [Ld A1 (field_offset A1) A1, Mret]"
  by (simp add: context_switch_code_def all_regs_def field_offset_def)

lemma load_save_csr:
  assumes "k \<in> {31, 32}"
  shows "load64 (save_regs g p rs m) (p + 8 * of_nat k) = load64 m (p + 8 * of_nat k)"
proof (induction rs arbitrary: m)
  case (Cons r rs)
  have "apart (p + field_offset r) (p + 8 * of_nat k)"
    unfolding field_offset_def using assms reg_index_bound [of r] by (intro apart_offsets) auto
  then show ?case using Cons by (simp add: save_regs_def load_store_apart)
qed (simp add: save_regs_def)

lemmas load_save_csrs = load_save_csr [of 31, simplified] load_save_csr [of 32, simplified]

lemma frame_reg_extend [simp]: "frame_reg r (TrapFrame.extend f x) = frame_reg r f"
  by (cases r) (simp_all add: TrapFrame.defs)

lemma read_context_sel:
  "frame_reg r (read_context m p) = load64 m (p + field_offset r)"
  "mepc (read_context m p) = load64 m (p + 248)" "mstatus (read_context m p) = load64 m (p + 256)"
proof -
  show "frame_reg r (read_context m p) = load64 m (p + field_offset r)"
    by (simp add: read_context_def read_frame_def)
  show "mepc (read_context m p) = load64 m (p + 248)" "mstatus (read_context m p) = load64 m (p + 256)"
    by (simp_all add: read_context_def TrapFrame.extend_def)
qed

lemma do_context_switch_run:
  fixes s :: "'a cpu_scheme"
  assumes a: "gpr s A0 = old" "gpr s A1 = new" and disj: "contexts_disjoint old new"
  shows "do_context_switch_asm s =
    Return () (exec_mret (s\<lparr>mem := save_regs (gpr s) old all_regs (mem s),
      mepc_csr := mepc (read_context (mem s) new), mstatus_csr := mstatus (read_context (mem s) new),
      gpr := regs_of_frame (read_context (mem s) new)\<rparr>))"
proof -
  let ?m = "save_regs (gpr s) old all_regs (mem s)"
  let ?rs = "filter (\<lambda>r. r \<noteq> A1) all_regs"
  have load: "load64 ?m (new + field_offset r) = load64 (mem s) (new + field_offset r)" for r
    using field_offset_bound [of r] by (intro load_save_disjoint disj) simp
  have loads: "load64 ?m (new + 248) = load64 (mem s) (new + 248)"
    "load64 ?m (new + 256) = load64 (mem s) (new + 256)"
    by (intro load_save_disjoint disj; simp)+
  let ?s1 = "s\<lparr>mem := ?m, gpr := (gpr s)(T0 := load64 (mem s) (new + 256)),
    mepc_csr := load64 (mem s) (new + 248), mstatus_csr := load64 (mem s) (new + 256)\<rparr>"
  have "do_context_switch_asm s =
      run_program skip (map (\<lambda>r. Ld r (field_offset r) A1) ?rs @ [Ld A1 (field_offset A1) A1, Mret]) ?s1"
    unfolding do_context_switch_asm_def context_switch_layout run_saves
    by (simp add: run_Cons set_reg_def a loads)
      (auto intro!: arg_cong [of _ _ "run_program skip _"] cpu.equality)
  also have "\<dots> = Return () (exec_mret (?s1\<lparr>gpr := (\<lambda>r. load64 (mem s) (new + field_offset r))\<rparr>))"
    using run_loads [of A1 ?rs skip "[Ld A1 (field_offset A1) A1, Mret]" ?s1]
    by (simp add: run_Cons run_Nil set_reg_def a load set_all_regs fun_upd_def cong: if_cong)
      (auto intro!: arg_cong [of _ _ exec_mret] cpu.equality)
  finally show ?thesis by (simp add: read_context_sel)
qed

section \<open>Properties\<close>

text \<open>
  C17: A context switch between two contexts that do not overlap saves and loads everything. The old
  context then holds the registers at the call (with the two pointers in \<open>a0\<close> and \<open>a1\<close>) and
  the trap CSRs, and the hart runs with all 31 registers, the program counter and the privilege
  of the new context.
\<close>

theorem context_switch_swaps:
  assumes "contexts_disjoint old new"
  shows "\<exists>s'. context_switch old new g s = Return () s' \<and>
    (\<forall>r. frame_reg r (read_context (mem s') old) = (g(A0 := old, A1 := new)) r) \<and>
    mepc (read_context (mem s') old) = mepc_csr s \<and>
    mstatus (read_context (mem s') old) = mstatus_csr s \<and>
    gpr s' = regs_of_frame (read_context (mem s) new) \<and>
    pc s' = mepc (read_context (mem s) new) \<and>
    priv s' = return_privilege (mstatus (read_context (mem s) new)) \<and>
    read_context (mem s') new = read_context (mem s) new"
proof -
  let ?m = "store64 (store64 (mem s) (old + 248) (mepc_csr s)) (old + 256) (mstatus_csr s)"
  let ?g = "g(A0 := old, A1 := new)"
  let ?s1 = "s\<lparr>mem := ?m, gpr := ?g\<rparr>"
  have ctx: "load64 ?m (new + j) = load64 (mem s) (new + j)" if "unat j \<le> 256" for j
    using that by (simp add: load_store_apart apart_disjoint [OF assms])
  have fields: "load64 ?m (new + field_offset r) = load64 (mem s) (new + field_offset r)" for r
    using field_offset_bound [of r] by (intro ctx) simp
  have new: "read_context ?m new = read_context (mem s) new"
    by (simp add: read_context_def read_frame_def fields ctx)
  let ?m' = "save_regs ?g old all_regs ?m"
  have run: "context_switch old new g s = Return () (exec_mret (?s1\<lparr>mem := ?m',
      mepc_csr := mepc (read_context (mem s) new), mstatus_csr := mstatus (read_context (mem s) new),
      gpr := regs_of_frame (read_context (mem s) new)\<rparr>))"
    using do_context_switch_run [of ?s1 old new] assms new
    by (simp add: context_switch_def then_comp_def bind_comp_def modify_def skip_run)
  have "apart (old + 256) (old + 248)" using apart_offsets [of 32 31 old] by simp
  then have csrs: "load64 ?m' (old + 248) = mepc_csr s" "load64 ?m' (old + 256) = mstatus_csr s"
    by (simp_all add: load_save_csrs load_store_apart)
  note all_regs_distinct
  then have old: "load64 ?m' (old + field_offset r) = ?g r" for r
    by (simp add: load_save_regs set_all_regs)
  have keep: "load64 ?m' (new + j) = load64 (mem s) (new + j)" if "unat j \<le> 256" for j
    using ctx [OF that] by (simp add: load_save_disjoint [OF assms that])
  have kept: "load64 ?m' (new + field_offset r) = load64 (mem s) (new + field_offset r)" for r
    using field_offset_bound [of r] by (intro keep) simp
  have "read_context ?m' new = read_context (mem s) new"
    by (simp add: read_context_def read_frame_def kept keep)
  with run csrs old show ?thesis by (simp add: exec_mret_def read_context_sel)
qed

theorem context_switch_swaps_witness:
  "\<forall>s :: cpu. \<exists>s'. context_switch 0x1000 0x2000 (\<lambda>_. 7) s = Return () s' \<and>
     frame_reg S0 (read_context (mem s') 0x1000) = 7 \<and>
     pc s' = mepc (read_context (mem s) 0x2000)"
proof
  fix s :: cpu
  have "contexts_disjoint 0x1000 0x2000" by (simp add: contexts_disjoint_def)
  from context_switch_swaps [OF this, of "\<lambda>_. 7" s] obtain s' where
    "context_switch 0x1000 0x2000 (\<lambda>_. 7) s = Return () s'"
    "\<forall>r. frame_reg r (read_context (mem s') 0x1000) = ((\<lambda>_. 7)(A0 := 0x1000, A1 := 0x2000)) r"
    "pc s' = mepc (read_context (mem s) 0x2000)" by blast
  then show "\<exists>s'. context_switch 0x1000 0x2000 (\<lambda>_. 7) s = Return () s' \<and>
     frame_reg S0 (read_context (mem s') 0x1000) = 7 \<and>
     pc s' = mepc (read_context (mem s) 0x2000)" by (intro exI [of _ s']) (simp add: spec [of _ S0])
qed


text \<open>A task that has set its stack pointer to an address in kernel text.\<close>

definition stray_cpu :: cpu where
  "stray_cpu = hart.extend booted_hart \<lparr>TICK_COUNT = TICK_COUNT_init, SCHEDULER = SCHEDULER_init,
     ALLOCATOR = ALLOCATOR_init, gpr = (\<lambda>_. 0)(SP := 0x80000200), mem = (\<lambda>_. 0), pc = 0x80008000,
     priv = U_mode\<rparr>"


end
