(* ===== verification/Boot.thy ===== *)
theory Boot
  imports Trapping Trap_Asm
begin

text \<open>
  The kernel's entry and boot sequence, \<open>crates/kernel/src/main.rs\<close>, and its panic handler.

  A function that ends in \<open>loop { wfi }\<close> is the computation up to that loop: a \<open>Return\<close> is a
  hart that waits there for interrupts. Addresses the linker chooses and the line at which the
  allocation library reports exhaustion are parameters, collected in a record.
\<close>

record boot_env =
  symbols :: linker_symbols
  trap_entry :: u64
  idle_entry :: u64
  echo_entry :: u64
  violation_entry :: u64
  oom_line :: nat

section \<open>Before Rust code runs\<close>

lemma unat_succ: "ptr < stop \<Longrightarrow> unat (ptr + 1) = unat ptr + 1" for ptr stop :: u64
proof -
  assume "ptr < stop"
  moreover have "unat stop < 2 ^ 64" using unsigned_less [of stop] by simp
  ultimately show ?thesis by (simp add: unat_word_ariths(1) word_less_nat_alt)
qed

function clear_loop :: "u64 \<Rightarrow> u64 \<Rightarrow> memory \<Rightarrow> memory" where
  "clear_loop ptr stop m = (if ptr < stop then clear_loop (ptr + 1) stop (m(ptr := 0)) else m)"
  by pat_completeness auto
termination
proof (relation "measure (\<lambda>(ptr, stop, m). unat stop - unat ptr)")
  fix ptr stop :: u64 and m :: memory
  assume "ptr < stop"
  then show "((ptr + 1, stop, m(ptr := 0)), ptr, stop, m) \<in> measure (\<lambda>(ptr, stop, m). unat stop - unat ptr)"
    using unat_succ [of ptr stop] by (simp add: word_less_nat_alt)
qed simp

declare clear_loop.simps [simp del]

definition clear_bss :: "linker_symbols \<Rightarrow> ('a cpu_scheme, unit) comp" where
  "clear_bss L = modify (\<lambda>s. s\<lparr>mem := clear_loop (sym_sbss L) (sym_ebss L) (mem s)\<rparr>)"

section \<open>The boot sequence\<close>

definition print_banner :: "('a hart_scheme, unit) comp" where
  "print_banner = block [
     uart_init,
     println [''CyptOS v0.1.0''],
     println [''RV64 bare-metal microkernel''],
     println [''----------------------------'']]"

text \<open>
  \<open>vec![1u8, 2, 3]\<close> allocates three bytes and fills them in; without memory the library
  panics. Dropping it calls \<open>dealloc\<close>.
\<close>

definition test_alloc :: "nat \<Rightarrow> ('a kernel_scheme, unit) comp" where
  "test_alloc line =
     bind_comp (global_alloc \<lparr>layout_size = 3, layout_align = 1\<rparr>) (\<lambda>p.
     if p = 0 then panic_at ''library/alloc/src/alloc.rs'' line ''memory allocation of 3 bytes failed''
     else then_comp (println [''[alloc] Test alloc ok, len='', fmt_dec 3])
       (modify (\<lambda>k. k\<lparr>ALLOCATOR := dealloc p \<lparr>layout_size = 3, layout_align = 1\<rparr> (ALLOCATOR k)\<rparr>)))"

definition init_heap :: "boot_env \<Rightarrow> ('a kernel_scheme, unit) comp" where
  "init_heap E = block [
     modify (\<lambda>k. k\<lparr>ALLOCATOR := BumpAllocator_init (sym_sheap (symbols E)) (sym_eheap (symbols E)) (ALLOCATOR k)\<rparr>),
     puts (''[alloc] Heap initialized'' @ newline),
     test_alloc (oom_line E)]"

primrec id_number :: "TaskId \<Rightarrow> u64" where
  "id_number (TaskId b) = ucast b"

definition spawn_idle_task :: "boot_env \<Rightarrow> ('a kernel_scheme, unit) comp" where
  "spawn_idle_task E =
     bind_comp (spawn (TaskSpec_machine (idle_entry E))) (\<lambda>idle_id. block [
       puts ''[sched] idle task created: '',
       put_dec (id_number idle_id),
       puts newline])"

definition spawn_echo_task :: "boot_env \<Rightarrow> u64 \<Rightarrow> ('a kernel_scheme, unit) comp" where
  "spawn_echo_task E user_text_base =
     bind_comp (spawn (TaskSpec_user (echo_entry E) user_text_base 0x1000 [(UART_BASE, 0x1000)])) (\<lambda>task0_id. block [
       puts ''[sched] task created: '',
       put_dec (id_number task0_id),
       puts newline])"

definition spawn_violation_task :: "boot_env \<Rightarrow> u64 \<Rightarrow> ('a kernel_scheme, unit) comp" where
  "spawn_violation_task E user_text_base =
     bind_comp (spawn (TaskSpec_user (violation_entry E) user_text_base 0x1000 [])) (\<lambda>task1_id. block [
       puts ''[sched] task created: '',
       put_dec (id_number task1_id),
       puts newline])"

text \<open>The dash in the message is the character U+2014, three bytes in UTF-8.\<close>

definition em_dash :: string where
  "em_dash = [char_of (0xE2 :: nat), char_of (0x80 :: nat), char_of (0x94 :: nat)]"

definition start_scheduler :: "('a kernel_scheme, unit) comp" where
  "start_scheduler = block [
     sched_init,
     enable_interrupts,
     puts (''[kernel] Scheduler started '' @ em_dash @ '' idle task handles wfi'' @ newline)]"

definition kmain :: "boot_env \<Rightarrow> ('a kernel_scheme, unit) comp" where
  "kmain E = block [
     print_banner,
     init_heap E,
     trap_init (trap_entry E),
     pmp_init (symbols E),
     timer_init,
     spawn_idle_task E,
     spawn_echo_task E (sym_user_text_start (symbols E)),
     spawn_violation_task E (sym_user_text_start (symbols E)),
     start_scheduler]"

text \<open>
  \<open>_start\<close>: the hart's number goes to \<open>t0\<close>; a hart other than 0 goes straight to the parking
  loop. The scratch registers of the two calls are not tracked.
\<close>

definition start_hart :: "boot_env \<Rightarrow> u64 \<Rightarrow> ('a cpu_scheme, unit) comp" where
  "start_hart E mhartid =
     then_comp (modify (\<lambda>s. s\<lparr>gpr := (gpr s)(T0 := mhartid)\<rparr>))
     (if mhartid \<noteq> 0 then skip
      else block [
        modify (\<lambda>s. s\<lparr>gpr := (gpr s)(SP := sym_stack_top (symbols E))\<rparr>),
        clear_bss (symbols E),
        kmain E])"

definition panic_handler :: "panic_info \<Rightarrow> ('a hart_scheme, unit) comp" where
  "panic_handler info = block [
     println [newline @ ''!!! KERNEL PANIC !!!''],
     println [''at '', panic_file info, '':'', fmt_dec (of_nat (panic_line info))]]"

section \<open>Clearing \<open>.bss\<close>\<close>

lemma clear_loop_eq:
  "clear_loop ptr stop m = (\<lambda>x. if ptr \<le> x \<and> x < stop then 0 else m x)"
proof (induction ptr stop m rule: clear_loop.induct)
  case (1 ptr stop m)
  show ?case
  proof (cases "ptr < stop")
    case True
    have "ptr + 1 \<le> x \<longleftrightarrow> ptr \<le> x \<and> x \<noteq> ptr" for x
      using unat_succ [OF True] by (auto simp: word_le_nat_alt word_unat_eq_iff)
    moreover have "clear_loop ptr stop m = clear_loop (ptr + 1) stop (m(ptr := 0))"
      using True by (simp add: clear_loop.simps [of ptr])
    ultimately show ?thesis unfolding 1 [OF True] using True by (auto simp: fun_eq_iff)
  next
    case False
    then show ?thesis by (subst clear_loop.simps) (auto simp: fun_eq_iff)
  qed
qed

text \<open>
  C23: Clearing \<open>.bss\<close> ends and writes a zero to every byte from \<open>_sbss\<close> up to but not
  including \<open>_ebss\<close>, and to no other byte; nothing else of the hart changes. It does nothing
  when the section is empty.
\<close>

theorem clear_bss_exact:
  "clear_bss L s = Return () (s\<lparr>mem := (\<lambda>x. if sym_sbss L \<le> x \<and> x < sym_ebss L then 0 else mem s x)\<rparr>)"
  by (simp add: clear_bss_def modify_def clear_loop_eq)

end
