(* ===== verification/Booting.thy ===== *)
theory Booting
  imports Boot
begin

text \<open>
  What the boot sequence of \<open>crates/kernel/src/main.rs\<close> does: it prints exactly the boot log
  and leaves the state in which the scheduler takes over, with the kernel's invariant
  established.
\<close>

section \<open>Runs modulo the console\<close>

text \<open>
  \<open>does m bs K a K'\<close>: from any state that agrees with \<open>K\<close> outside the console and whose
  transmitter has room for \<open>bs\<close>, the computation returns \<open>a\<close>, has written exactly \<open>bs\<close> to
  the transmit register and leaves a state that agrees with \<open>K'\<close> outside the console.
\<close>

definition quiet :: "'a hart_scheme \<Rightarrow> 'a hart_scheme" where
  "quiet h = h\<lparr>uart_in := [], mmio_trace := []\<rparr>"

definition does ::
  "('a hart_scheme, 'b) comp \<Rightarrow> u8 list \<Rightarrow> 'a hart_scheme \<Rightarrow> 'b \<Rightarrow> 'a hart_scheme \<Rightarrow> bool"
where
  "does m bs K a K' \<longleftrightarrow> (\<forall>k. quiet k = K \<longrightarrow> length bs \<le> tx_budget k \<longrightarrow>
     (\<exists>k' tr. m k = Return a k' \<and> quiet k' = K' \<and> mmio_trace k' = mmio_trace k @ tr \<and>
        thr_bytes tr = bs \<and> tx_budget k \<le> tx_budget k' + length bs))"

lemma doesD:
  assumes "does m bs K a K'" "quiet k = K" "length bs \<le> tx_budget k"
  obtains k' tr where "m k = Return a k'" "quiet k' = K'" "mmio_trace k' = mmio_trace k @ tr"
    "thr_bytes tr = bs" "tx_budget k \<le> tx_budget k' + length bs"
  using assms unfolding does_def by blast

lemma does_bind:
  assumes m: "does m bs K a K1" and f: "does (f a) cs K1 b K2"
  shows "does (bind_comp m f) (bs @ cs) K b K2"
  unfolding does_def
proof (intro allI impI)
  fix k
  assume k: "quiet k = K" "length (bs @ cs) \<le> tx_budget k"
  then have "length bs \<le> tx_budget k" by simp
  then obtain k1 tr where k1: "m k = Return a k1" "quiet k1 = K1" "mmio_trace k1 = mmio_trace k @ tr"
    "thr_bytes tr = bs" "tx_budget k \<le> tx_budget k1 + length bs"
    by (rule doesD [OF m k(1)])
  then have "length cs \<le> tx_budget k1" using k(2) by simp
  then obtain k2 tr' where "f a k1 = Return b k2" "quiet k2 = K2" "mmio_trace k2 = mmio_trace k1 @ tr'"
    "thr_bytes tr' = cs" "tx_budget k1 \<le> tx_budget k2 + length cs"
    by (rule doesD [OF f k1(2)])
  with k1 show "\<exists>k' tr. bind_comp m f k = Return b k' \<and> quiet k' = K2 \<and> mmio_trace k' = mmio_trace k @ tr \<and>
      thr_bytes tr = bs @ cs \<and> tx_budget k \<le> tx_budget k' + length (bs @ cs)"
    by (intro exI [of _ k2] exI [of _ "tr @ tr'"]) (simp add: bind_comp_def)
qed

lemma does_then: "does m bs K a K1 \<Longrightarrow> does n cs K1 b K2 \<Longrightarrow> does (then_comp m n) (bs @ cs) K b K2"
  unfolding then_comp_def by (rule does_bind)

lemma quiet_console: "quiet (h\<lparr>uart_in := vs, mmio_trace := tr\<rparr>) = quiet h"
  by (simp add: quiet_def)

lemma does_emits:
  assumes "emits m bs"
  shows "does m bs K () K"
  unfolding does_def
proof (intro allI impI)
  fix k
  assume "quiet k = K" "length bs \<le> tx_budget k"
  moreover obtain vs tr where "m k = Return () (k\<lparr>uart_in := vs, mmio_trace := mmio_trace k @ tr\<rparr>)"
    "thr_bytes tr = bs" "tx_ready vs = tx_budget k - length bs"
    by (rule emitsD [OF assms \<open>length bs \<le> tx_budget k\<close>])
  ultimately show "\<exists>k' tr. m k = Return () k' \<and> quiet k' = K \<and> mmio_trace k' = mmio_trace k @ tr \<and>
      thr_bytes tr = bs \<and> tx_budget k \<le> tx_budget k' + length bs"
    by (intro exI [of _ "k\<lparr>uart_in := vs, mmio_trace := mmio_trace k @ tr\<rparr>"] exI [of _ tr])
      (simp add: quiet_console tx_budget_def)
qed

lemma does_skip: "does skip [] K () K"
  by (rule does_emits [OF emits_skip])

text \<open>A computation that does not use the console runs as it does on the quiet state.\<close>

lemma does_silent:
  assumes "\<And>k. quiet k = K \<Longrightarrow> \<exists>tr. m k = Return a (u k\<lparr>mmio_trace := mmio_trace k @ tr\<rparr>) \<and> thr_bytes tr = []"
    and "\<And>k. quiet k = K \<Longrightarrow> quiet (u k) = K'" "\<And>k. uart_in (u k) = uart_in k"
  shows "does m [] K a K'"
  unfolding does_def
proof (intro allI impI)
  fix k
  assume k: "quiet k = K"
  obtain tr where "m k = Return a (u k\<lparr>mmio_trace := mmio_trace k @ tr\<rparr>)" "thr_bytes tr = []"
    using assms(1) [OF k] by blast
  with assms(2) [OF k] assms(3) [of k]
  show "\<exists>k' tr. m k = Return a k' \<and> quiet k' = K' \<and> mmio_trace k' = mmio_trace k @ tr \<and>
      thr_bytes tr = [] \<and> tx_budget k \<le> tx_budget k' + length ([] :: u8 list)"
    by (intro exI [of _ "u k\<lparr>mmio_trace := mmio_trace k @ tr\<rparr>"] exI [of _ tr])
      (simp add: quiet_def tx_budget_def)
qed

lemma quiet_sel [simp]:
  "mstatus_csr (quiet k) = mstatus_csr k" "mtime (quiet k) = mtime k" "mie_csr (quiet k) = mie_csr k"
  "uart_in (quiet k) = []" "quiet (quiet k) = quiet k"
  "quiet (k\<lparr>mstatus_csr := v\<rparr>) = (quiet k)\<lparr>mstatus_csr := v\<rparr>"
  "quiet (k\<lparr>mtvec_csr := v\<rparr>) = (quiet k)\<lparr>mtvec_csr := v\<rparr>"
  "quiet (k\<lparr>mie_csr := v\<rparr>) = (quiet k)\<lparr>mie_csr := v\<rparr>"
  "quiet (k\<lparr>mtimecmp := v\<rparr>) = (quiet k)\<lparr>mtimecmp := v\<rparr>"
  "quiet (k\<lparr>mmio_trace := tr\<rparr>) = quiet k" "quiet (k\<lparr>uart_in := vs\<rparr>) = quiet k"
  by (auto simp: quiet_def intro!: hart.equality)

lemma quiet_kernel_sel [simp]:
  "ALLOCATOR (quiet k) = ALLOCATOR k" "SCHEDULER (quiet k) = SCHEDULER k"
  "quiet (k\<lparr>ALLOCATOR := al\<rparr>) = (quiet k)\<lparr>ALLOCATOR := al\<rparr>"
  "quiet (k\<lparr>SCHEDULER := st\<rparr>) = (quiet k)\<lparr>SCHEDULER := st\<rparr>"
  by (auto simp: quiet_def intro!: kernel.equality)

lemma quiet_pmp [simp]:
  "quiet (k\<lparr>pmpcfg0_csr := c0, pmpcfg2_csr := c2, pmpaddr_csr := pa\<rparr>) =
     (quiet k)\<lparr>pmpcfg0_csr := c0, pmpcfg2_csr := c2, pmpaddr_csr := pa\<rparr>"
  "entry_cfg (quiet k) = entry_cfg k" "length (pmpaddr_csr (quiet k)) = length (pmpaddr_csr k)"
  by (auto simp: quiet_def entry_cfg_def intro!: hart.equality)

text \<open>A step that only changes the state outside the console.\<close>

lemma does_update:
  assumes "\<And>k. quiet k = K \<Longrightarrow> m k = Return a (u k)"
    and "\<And>k. quiet k = K \<Longrightarrow> quiet (u k) = K'"
    and "\<And>k. uart_in (u k) = uart_in k" "\<And>k. mmio_trace (u k) = mmio_trace k"
  shows "does m [] K a K'"
proof (rule does_silent [where u = u])
  fix k
  assume k: "quiet k = K"
  have "u k\<lparr>mmio_trace := mmio_trace k @ []\<rparr> = u k" using assms(4) [of k] by (auto intro!: hart.equality)
  with assms(1) [OF k] show "\<exists>tr. m k = Return a (u k\<lparr>mmio_trace := mmio_trace k @ tr\<rparr>) \<and> thr_bytes tr = []"
    by (intro exI [of _ "[]"]) (simp add: assms(4))
qed (use assms in simp_all)

lemma does_block_Cons: "does m bs K a K1 \<Longrightarrow> does (block ms) cs K1 () K2 \<Longrightarrow> does (block (m # ms)) (bs @ cs) K () K2"
  by (simp add: does_then)

lemma does_block_Nil: "does (block []) [] K () K"
  by (simp add: does_skip)

lemmas does_block = does_block_Cons does_block_Nil

lemma does_puts: "does (puts s) (crlf (bytes s)) K () K"
  by (rule does_emits [OF emits_puts])

lemma does_println: "does (println args) (crlf (bytes (concat args @ newline))) K () K"
  by (rule does_emits [OF emits_println])

section \<open>The parts of the boot sequence\<close>

lemma does_uart_init: "does uart_init [1] K () K"
  unfolding does_def
proof (intro allI impI)
  fix k
  assume k: "quiet k = K"
  let ?tr = "[MmioWrite8 (UART_BASE + IER) 0x00, MmioWrite8 (UART_BASE + LCR) LCR_DLAB,
    MmioWrite8 (UART_BASE + 0) 0x01, MmioWrite8 (UART_BASE + 1) 0x00, MmioWrite8 (UART_BASE + LCR) LCR_8BIT,
    MmioWrite8 (UART_BASE + FCR) 0x07]"
  have "uart_init k = Return () (k\<lparr>mmio_trace := mmio_trace k @ ?tr\<rparr>)"
    by (simp add: uart_init_def then_comp_def bind_comp_def write_volatile8_run skip_run)
  moreover have "thr_bytes ?tr = [1]"
    by (simp add: IER_def LCR_def FCR_def THR_def UART_BASE_def)
  ultimately show "\<exists>k' tr. uart_init k = Return () k' \<and> quiet k' = K \<and> mmio_trace k' = mmio_trace k @ tr \<and>
      thr_bytes tr = [1] \<and> tx_budget k \<le> tx_budget k' + length [1 :: u8]"
    using k by (intro exI [of _ "k\<lparr>mmio_trace := mmio_trace k @ ?tr\<rparr>"] exI [of _ ?tr]) (simp add: tx_budget_def)
qed

definition banner_text :: string where
  "banner_text = ''CyptOS v0.1.0'' @ newline @ ''RV64 bare-metal microkernel'' @ newline @
     ''----------------------------'' @ newline"

lemma does_print_banner: "does print_banner (1 # crlf (bytes banner_text)) K () K"
proof -
  have "does print_banner ([1] @ crlf (bytes (concat [''CyptOS v0.1.0''] @ newline)) @
      crlf (bytes (concat [''RV64 bare-metal microkernel''] @ newline)) @
      crlf (bytes (concat [''----------------------------''] @ newline)) @ []) K () K"
    unfolding print_banner_def by (rule does_block does_uart_init does_println)+
  then show ?thesis by (simp add: banner_text_def crlf_append)
qed

text \<open>The heap after the test allocation.\<close>

definition heap_after_test :: "linker_symbols \<Rightarrow> BumpAllocator" where
  "heap_after_test L = \<lparr>heap_start = sym_sheap L, heap_end = sym_eheap L, next_ptr = sym_sheap L + 3\<rparr>"

lemma linker_heap:
  assumes "linker_ok L"
  shows "0 < unat (sym_sheap L)" "unat (sym_sheap L) + 0x1000000 = unat (sym_eheap L)"
    "unat (sym_eheap L) \<le> 0x88000000" "sym_sheap L \<noteq> 0" "unat (sym_sheap L + 3) = unat (sym_sheap L) + 3"
proof -
  show e: "unat (sym_sheap L) + 0x1000000 = unat (sym_eheap L)" "unat (sym_eheap L) \<le> 0x88000000"
    using assms by (simp_all add: linker_ok_def word_le_nat_alt)
  show "0 < unat (sym_sheap L)" using assms by (simp add: linker_ok_def word_le_nat_alt)
  then show "sym_sheap L \<noteq> 0" by auto
  show "unat (sym_sheap L + 3) = unat (sym_sheap L) + 3" using e by (simp add: unat_word_ariths(1))
qed

lemma test_alloc_block:
  assumes "linker_ok L"
  shows "alloc [] \<lparr>layout_size = 3, layout_align = 1\<rparr> (BumpAllocator_init (sym_sheap L) (sym_eheap L) a) =
    (sym_sheap L, heap_after_test L)"
proof -
  have "align_up (sym_sheap L) 1 = sym_sheap L" by (simp add: align_up_def)
  moreover have "sym_sheap L + 3 \<le> sym_eheap L" using linker_heap [OF assms] by (simp add: word_le_nat_alt)
  ultimately show ?thesis
    by (cases a) (simp add: alloc_def alloc_loop.simps BumpAllocator_init_def heap_after_test_def not_less Let_def)
qed

lemma does_test_alloc:
  assumes L: "linker_ok L" and K: "ALLOCATOR K = BumpAllocator_init (sym_sheap L) (sym_eheap L) a"
  shows "does (test_alloc line) (crlf (bytes (''[alloc] Test alloc ok, len=3'' @ newline))) K ()
    (K\<lparr>ALLOCATOR := heap_after_test L\<rparr>)"
proof -
  let ?l = "\<lparr>layout_size = 3, layout_align = 1\<rparr> :: Layout" and ?K = "K\<lparr>ALLOCATOR := heap_after_test L\<rparr>"
  have alloc: "does (global_alloc ?l) [] K (sym_sheap L) ?K"
  proof (rule does_update [where u = "\<lambda>k. k\<lparr>ALLOCATOR := heap_after_test L\<rparr>"])
    fix k assume "quiet k = K"
    then have "ALLOCATOR k = BumpAllocator_init (sym_sheap L) (sym_eheap L) a" using K by (metis quiet_kernel_sel(1))
    then show "global_alloc ?l k = Return (sym_sheap L) (k\<lparr>ALLOCATOR := heap_after_test L\<rparr>)"
      by (simp add: global_alloc_def bind_comp_def then_comp_def gets_def modify_def ret_def test_alloc_block [OF L])
  qed auto
  have drop: "does (modify (\<lambda>k. k\<lparr>ALLOCATOR := dealloc p ?l (ALLOCATOR k)\<rparr>)) [] ?K () ?K" for p
    by (rule does_update [where u = id]) (auto simp: modify_def dealloc_def)
  have "fmt_dec 3 = ''3''" by (simp add: fmt_dec_def digits_small dec_digit_def char_of_def bit_Suc bit_0)
  then have say: "does (println [''[alloc] Test alloc ok, len='', fmt_dec 3])
      (crlf (bytes (''[alloc] Test alloc ok, len=3'' @ newline))) ?K () ?K"
    using does_println [of "[''[alloc] Test alloc ok, len='', fmt_dec 3]" ?K] by simp
  have "does (test_alloc line) ([] @ crlf (bytes (''[alloc] Test alloc ok, len=3'' @ newline))) K () ?K"
    unfolding test_alloc_def
    by (rule does_bind [OF alloc]) (use does_then [OF say drop] linker_heap(4) [OF L] in simp)
  then show ?thesis by simp
qed

lemma does_init_heap:
  assumes "linker_ok (symbols E)"
  shows "does (init_heap E) (crlf (bytes (''[alloc] Heap initialized'' @ newline @
      ''[alloc] Test alloc ok, len=3'' @ newline))) K ()
    (K\<lparr>ALLOCATOR := heap_after_test (symbols E)\<rparr>)"
proof -
  let ?a = "BumpAllocator_init (sym_sheap (symbols E)) (sym_eheap (symbols E)) (ALLOCATOR K)"
  let ?K = "K\<lparr>ALLOCATOR := ?a\<rparr>"
  have init: "does (modify (\<lambda>k. k\<lparr>ALLOCATOR := BumpAllocator_init (sym_sheap (symbols E)) (sym_eheap (symbols E)) (ALLOCATOR k)\<rparr>))
      [] K () ?K"
    by (rule does_update [where u = "\<lambda>k. k\<lparr>ALLOCATOR := BumpAllocator_init (sym_sheap (symbols E)) (sym_eheap (symbols E)) (ALLOCATOR k)\<rparr>"])
      (auto simp: modify_def)
  have "does (test_alloc (oom_line E)) (crlf (bytes (''[alloc] Test alloc ok, len=3'' @ newline))) ?K ()
      (?K\<lparr>ALLOCATOR := heap_after_test (symbols E)\<rparr>)"
    by (rule does_test_alloc [OF assms, of _ "ALLOCATOR K"]) simp
  from does_block_Cons [OF init does_block_Cons [OF does_puts does_block_Cons [OF this does_block_Nil]],
      of "''[alloc] Heap initialized'' @ newline"]
  show ?thesis unfolding init_heap_def by (simp add: crlf_append)
qed

lemma does_trap_init:
  "does (trap_init addr) (crlf (bytes (''[trap] mtvec initialized'' @ newline))) K () (K\<lparr>mtvec_csr := addr\<rparr>)"
proof -
  have "does (mtvec_write addr) [] K () (K\<lparr>mtvec_csr := addr\<rparr>)"
    by (rule does_update [where u = "\<lambda>k. k\<lparr>mtvec_csr := addr\<rparr>"]) (auto simp: csr_write_runs)
  from does_block_Cons [OF this does_block_Cons [OF does_println does_block_Nil], of "[''[trap] mtvec initialized'']"]
  show ?thesis unfolding trap_init_def by simp
qed

text \<open>The PMP registers after \<open>pmp::init\<close>.\<close>

definition with_kernel_pmp :: "linker_symbols \<Rightarrow> 'a hart_scheme \<Rightarrow> 'a hart_scheme" where
  "with_kernel_pmp L h = h\<lparr>pmpcfg0_csr := 0x9B8B8C00, pmpcfg2_csr := 0, pmpaddr_csr := init_addr L\<rparr>"

lemma init_cfg_words:
  assumes "\<forall>i<16. entry_cfg g i = init_cfg i"
  shows "pmpcfg0_csr g = 0x9B8B8C00" "pmpcfg2_csr g = 0"
proof -
  have small: "i < 8 \<longleftrightarrow> i \<in> {0, 1, 2, 3, 4, 5, 6, 7}" for i :: nat by auto
  show "pmpcfg0_csr g = 0x9B8B8C00"
  proof (rule u64_eq_bytesI)
    fix i :: nat
    assume i: "i < 8"
    then have "byte_of (pmpcfg0_csr g) i = init_cfg i" using assms by (auto simp: entry_cfg_def dest: spec [of _ i])
    moreover have "byte_of 0x9B8B8C00 i = init_cfg i"
      using i unfolding small by (auto simp: byte_of_def init_cfg_def)
    ultimately show "byte_of (pmpcfg0_csr g) i = byte_of 0x9B8B8C00 i" by simp
  qed
  show "pmpcfg2_csr g = 0"
  proof (rule u64_eq_bytesI)
    fix i :: nat
    assume "i < 8"
    then have "byte_of (pmpcfg2_csr g) i = init_cfg (8 + i)"
      using assms by (auto simp: entry_cfg_def dest: spec [of _ "8 + i"])
    then show "byte_of (pmpcfg2_csr g) i = byte_of 0 i" by (simp add: init_cfg_def)
  qed
qed

lemma does_pmp_init:
  fixes K :: "'a hart_scheme"
  assumes L: "linker_ok L" and K: "pmp_reset K"
  shows "does (pmp_init L) (crlf (bytes (''[pmp] Kernel entries locked'' @ newline))) K () (with_kernel_pmp L K)"
proof -
  let ?entries = "clear_all # map (\<lambda>(i, region). init_entry i region) (enumerate 0 (kernel_entry_regions L))"
  have nz: "sym_stext L \<noteq> 0" using L by (simp add: linker_ok_def)
  have "does (block ?entries) [] K () (with_kernel_pmp L K)"
  proof (rule does_update [where u = "with_kernel_pmp L"])
    fix k assume k: "quiet k = K"
    then have "pmp_reset k" using K unfolding k [symmetric] pmp_reset_def by simp
    from init_entries_run [OF this nz] obtain g where g: "block ?entries k = Return () g"
      "entries_are k init_cfg (init_addr L) g" by blast
    have "g = with_kernel_pmp L k"
      using g(2) init_cfg_words [of g] unfolding entries_are_def with_kernel_pmp_def by metis
    with g(1) show "block ?entries k = Return () (with_kernel_pmp L k)" by (simp only:)
  qed (auto simp: with_kernel_pmp_def)
  from does_then [OF this does_block_Cons [OF does_puts does_block_Nil], of "''[pmp] Kernel entries locked'' @ newline"]
  have "does (then_comp (block ?entries) (block [puts (''[pmp] Kernel entries locked'' @ newline)]))
      (crlf (bytes (''[pmp] Kernel entries locked'' @ newline))) K () (with_kernel_pmp L K)"
    by (simp del: block.simps)
  moreover have "(pmp_init L :: ('a hart_scheme, unit) comp) = then_comp (block ?entries) (block [puts (''[pmp] Kernel entries locked'' @ newline)])"
    unfolding pmp_init_def append_Cons [symmetric] by (rule ext) (rule block_append)
  ultimately show ?thesis by (simp only:)
qed

lemma does_timer_init:
  "does timer_init (crlf (bytes (''[timer] CLINT initialized, tick=10ms'' @ newline))) K ()
    (K\<lparr>mie_csr := mie_csr K OR MTIE, mtimecmp := mtime K + 100000\<rparr>)"
proof -
  have clear: "does clear_timer [] K () (K\<lparr>mtimecmp := - 1\<rparr>)"
    by (rule does_silent [where u = "\<lambda>k. k\<lparr>mtimecmp := - 1\<rparr>"])
      (auto simp: clear_timer_def write_mtimecmp_def modify_def intro!: exI [of _ "[MmioWrite64 (CLINT_BASE + MTIMECMP_OFFSET) (- 1)]"])
  have enable: "does enable_timer_interrupt [] K () (K\<lparr>mie_csr := mie_csr K OR MTIE\<rparr>)" for K :: "'a hart_scheme"
    by (rule does_update [where u = "\<lambda>k. k\<lparr>mie_csr := mie_csr k OR MTIE\<rparr>"])
      (auto simp: enable_timer_interrupt_def csr_write_runs)
  have arm: "does (set_timer_us TICK_INTERVAL_US) [] K () (K\<lparr>mtimecmp := mtime K + 100000\<rparr>)" for K :: "'a hart_scheme"
    by (rule does_silent [where u = "\<lambda>k. k\<lparr>mtimecmp := mtime k + 100000\<rparr>"])
      (auto simp: set_timer_run us_to_ticks_tick)
  have "fmt_dec (TICK_INTERVAL_US div 1000) = ''10''"
    by (simp add: fmt_dec_def TICK_INTERVAL_US_def digits_large digits_small dec_digit_def char_of_def bit_Suc bit_0)
  then have say: "does (println [''[timer] CLINT initialized, tick='', fmt_dec (TICK_INTERVAL_US div 1000), ''ms''])
      (crlf (bytes (''[timer] CLINT initialized, tick=10ms'' @ newline))) K () K" for K :: "'a hart_scheme"
    using does_println [of "[''[timer] CLINT initialized, tick='', fmt_dec (TICK_INTERVAL_US div 1000), ''ms'']" K] by simp
  from does_block_Cons [OF clear does_block_Cons [OF enable does_block_Cons [OF arm does_block_Cons [OF say does_block_Nil]]]]
  show ?thesis unfolding timer_init_def by simp
qed

text \<open>Each spawn takes one stack from the heap.\<close>

definition after_stack :: "BumpAllocator \<Rightarrow> BumpAllocator" where
  "after_stack a = a\<lparr>next_ptr := stack_of a + 8192\<rparr>"

definition roomy :: "nat \<Rightarrow> BumpAllocator \<Rightarrow> bool" where
  "roomy n a \<longleftrightarrow> heap_ok a \<and> unat (next_ptr a) + 16384 * n \<le> unat (heap_end a)"

lemma roomy_stack:
  assumes "roomy (Suc n) a"
  shows "heap_ok a" "fits stack_layout a" "roomy n (after_stack a)"
proof -
  have ok: "heap_ok a" and room: "unat (next_ptr a) + 16384 * Suc n \<le> unat (heap_end a)"
    using assms by (simp_all add: roomy_def)
  then show "heap_ok a" by simp
  have "block_start stack_layout a \<le> unat (next_ptr a) + 8191"
    using round_up_bounds(2) [of 8192 "unat (next_ptr a)"] by (simp add: block_start_def stack_layout_def)
  then show fit: "fits stack_layout a" using room by (simp add: fits_def stack_layout_def)
  note p = stack_of_props [OF ok fit]
  have "unat (stack_of a) = block_start stack_layout a"
    using alloc_fits(1) [OF ok stack_layout_ok(1) fit p(5)] .
  then have le: "unat (stack_of a) \<le> unat (next_ptr a) + 8191"
    using \<open>block_start stack_layout a \<le> unat (next_ptr a) + 8191\<close> by simp
  have "unat (heap_end a) \<le> 2 ^ 63" using ok by (simp add: heap_ok_def)
  then have nx: "unat (stack_of a + 8192) = unat (stack_of a) + 8192"
    using p(4) by (simp add: unat_word_ariths(1))
  show "roomy n (after_stack a)"
    using ok room le p(3,4) nx by (auto simp: roomy_def after_stack_def heap_ok_def word_le_nat_alt)
qed

lemma does_announce:
  assumes "i < 4"
  shows "does (block [puts s, put_dec (id_number (TaskId (of_nat i))), puts newline])
    (crlf (bytes s) @ dec_bytes i @ [13, 10]) K () K"
proof -
  have "id_number (TaskId (of_nat i)) = of_nat i"
    using assms by (cases i; cases "i - 1"; cases "i - 2"; cases "i - 3") auto
  with does_emits [OF emits_numbered [OF assms, of s], of K] show ?thesis by simp
qed

lemma does_spawn_machine:
  assumes "roomy (Suc n) (ALLOCATOR K)" "first_free (SCHEDULER K) = Some i"
  shows "does (spawn (TaskSpec_machine e)) [] K (TaskId (of_nat i))
    (K\<lparr>ALLOCATOR := after_stack (ALLOCATOR K), SCHEDULER := (SCHEDULER K)\<lparr>tasks := (tasks (SCHEDULER K))
        [i := Some (machine_task_of i e (stack_of (ALLOCATOR K)))]\<rparr>\<rparr>)"
proof (rule does_update [where u = "\<lambda>k. k\<lparr>ALLOCATOR := after_stack (ALLOCATOR k),
    SCHEDULER := (SCHEDULER k)\<lparr>tasks := (tasks (SCHEDULER k))[i := Some (machine_task_of i e (stack_of (ALLOCATOR k)))]\<rparr>\<rparr>"])
  fix k assume "quiet k = K"
  then have "ALLOCATOR k = ALLOCATOR K" "SCHEDULER k = SCHEDULER K" by auto
  then show "spawn (TaskSpec_machine e) k = Return (TaskId (of_nat i)) (k\<lparr>ALLOCATOR := after_stack (ALLOCATOR k),
    SCHEDULER := (SCHEDULER k)\<lparr>tasks := (tasks (SCHEDULER k))[i := Some (machine_task_of i e (stack_of (ALLOCATOR k)))]\<rparr>\<rparr>)"
    using spawn_machine_run [of k i e] roomy_stack [OF assms(1)] assms(2) by (simp add: after_stack_def)
qed auto

lemma does_spawn_user:
  assumes "roomy (Suc n) (ALLOCATOR K)" "first_free (SCHEDULER K) = Some i"
    and "encodable code" "list_all encodable regs" "length regs \<le> 10"
  shows "does (spawn (TaskSpec_user e (fst code) (snd code) regs)) [] K (TaskId (of_nat i))
    (K\<lparr>ALLOCATOR := after_stack (ALLOCATOR K), SCHEDULER := (SCHEDULER K)\<lparr>tasks := (tasks (SCHEDULER K))
        [i := Some (user_task_of i e code regs (stack_of (ALLOCATOR K)))]\<rparr>\<rparr>)"
proof (rule does_update [where u = "\<lambda>k. k\<lparr>ALLOCATOR := after_stack (ALLOCATOR k),
    SCHEDULER := (SCHEDULER k)\<lparr>tasks := (tasks (SCHEDULER k))[i := Some (user_task_of i e code regs (stack_of (ALLOCATOR k)))]\<rparr>\<rparr>"])
  fix k assume "quiet k = K"
  then have "ALLOCATOR k = ALLOCATOR K" "SCHEDULER k = SCHEDULER K" by auto
  then show "spawn (TaskSpec_user e (fst code) (snd code) regs) k = Return (TaskId (of_nat i)) (k\<lparr>ALLOCATOR := after_stack (ALLOCATOR k),
    SCHEDULER := (SCHEDULER k)\<lparr>tasks := (tasks (SCHEDULER k))[i := Some (user_task_of i e code regs (stack_of (ALLOCATOR k)))]\<rparr>\<rparr>)"
    using spawn_user_run [of k i code regs e] roomy_stack [OF assms(1)] assms(2-5) by (simp add: after_stack_def)
qed auto

section \<open>The whole sequence\<close>

definition boot_log :: string where
  "boot_log = banner_text @
     ''[alloc] Heap initialized'' @ newline @ ''[alloc] Test alloc ok, len=3'' @ newline @
     ''[trap] mtvec initialized'' @ newline @
     ''[pmp] Kernel entries locked'' @ newline @
     ''[timer] CLINT initialized, tick=10ms'' @ newline @
     ''[sched] idle task created: 0'' @ newline @
     ''[sched] task created: 1'' @ newline @ ''[sched] task created: 2'' @ newline @
     ''[kernel] Scheduler started '' @ em_dash @ '' idle task handles wfi'' @ newline"

text \<open>The three stacks and the table of the spawned tasks, before and after \<open>sched::init\<close>.\<close>

definition boot_heap :: "boot_env \<Rightarrow> nat \<Rightarrow> BumpAllocator" where
  "boot_heap E n = (after_stack ^^ n) (heap_after_test (symbols E))"

definition boot_tasks :: "boot_env \<Rightarrow> Task list" where
  "boot_tasks E =
     (let code = (sym_user_text_start (symbols E), 0x1000) in [
       machine_task_of 0 (idle_entry E) (stack_of (boot_heap E 0)),
       user_task_of 1 (echo_entry E) code [(UART_BASE, 0x1000)] (stack_of (boot_heap E 1)),
       user_task_of 2 (violation_entry E) code [] (stack_of (boot_heap E 2))])"

definition boot_table :: "boot_env \<Rightarrow> nat \<Rightarrow> SchedulerState" where
  "boot_table E n = \<lparr>current = None, tasks = map Some (take n (boot_tasks E)) @ replicate (4 - n) None\<rparr>"

definition boot_sched :: "boot_env \<Rightarrow> SchedulerState" where
  "boot_sched E = \<lparr>current = None, tasks = map make_ready (tasks (boot_table E 3))\<rparr>"

lemma boot_roomy:
  assumes "linker_ok (symbols E)" "n \<le> 3"
  shows "roomy (4 - n) (boot_heap E n)"
  using assms(2)
proof (induction n)
  case 0
  show ?case
    using linker_heap [OF assms(1)]
    by (simp add: boot_heap_def roomy_def heap_ok_def heap_after_test_def word_le_nat_alt word_less_nat_alt)
next
  case (Suc n)
  then have "4 - n = Suc (4 - Suc n)" by simp
  with Suc have "roomy (Suc (4 - Suc n)) (boot_heap E n)" by simp
  from roomy_stack(3) [OF this] show ?case by (simp add: boot_heap_def)
qed

lemma four_slots: "[0..<MAX_TASKS] = [0, 1, 2, 3]" "MAX_TASKS = 4"
  by (simp_all add: MAX_TASKS_def upt_rec)

lemma boot_free: "n < 3 \<Longrightarrow> first_free (boot_table E n) = Some n"
  by (cases n; cases "n - 1"; cases "n - 2")
    (auto simp: first_free_def four_slots(1) boot_table_def boot_tasks_def Let_def numeral_eq_Suc)

lemma boot_table_init: "boot_table E 0 = SCHEDULER_init"
  by (simp add: boot_table_def SCHEDULER_init_def numeral_eq_Suc)

lemma boot_table_step:
  "n < 3 \<Longrightarrow> (boot_table E n)\<lparr>tasks := (tasks (boot_table E n))[n := Some (boot_tasks E ! n)]\<rparr> = boot_table E (Suc n)"
  by (cases n; cases "n - 1"; cases "n - 2")
    (auto simp: boot_table_def boot_tasks_def Let_def numeral_eq_Suc)

lemma does_spawn_idle:
  assumes "linker_ok (symbols E)" "ALLOCATOR K = boot_heap E 0" "SCHEDULER K = boot_table E 0"
  shows "does (spawn_idle_task E) (crlf (bytes (''[sched] idle task created: 0'' @ newline))) K ()
    (K\<lparr>ALLOCATOR := boot_heap E 1, SCHEDULER := boot_table E 1\<rparr>)"
proof -
  let ?K = "K\<lparr>ALLOCATOR := boot_heap E 1, SCHEDULER := boot_table E 1\<rparr>"
  have "roomy (Suc 3) (ALLOCATOR K)" using boot_roomy [OF assms(1), of 0] assms(2) by simp
  moreover have "first_free (SCHEDULER K) = Some 0" using boot_free [of 0 E] assms(3) by simp
  ultimately have "does (spawn (TaskSpec_machine (idle_entry E))) [] K (TaskId (of_nat 0))
    (K\<lparr>ALLOCATOR := after_stack (ALLOCATOR K), SCHEDULER := (SCHEDULER K)\<lparr>tasks := (tasks (SCHEDULER K))
        [0 := Some (machine_task_of 0 (idle_entry E) (stack_of (ALLOCATOR K)))]\<rparr>\<rparr>)"
    by (rule does_spawn_machine)
  then have sp: "does (spawn (TaskSpec_machine (idle_entry E))) [] K (TaskId (of_nat 0)) ?K"
    using boot_table_step [of 0 E] assms(2,3) by (simp add: boot_tasks_def Let_def boot_heap_def)
  have "does (spawn_idle_task E) ([] @ crlf (bytes ''[sched] idle task created: '') @ dec_bytes 0 @ [13, 10]) K () ?K"
    unfolding spawn_idle_task_def by (rule does_bind [OF sp]) (rule does_announce, simp)
  then show ?thesis
    by (simp add: crlf_append newline_bytes digits_small dec_digit_def)
qed

lemma user_code_encodable:
  assumes "linker_ok L"
  shows "encodable (sym_user_text_start L, 0x1000)" "encodable (UART_BASE, 0x1000)"
proof -
  have "unat (sym_user_text_start L AND (2 ^ 12 - 1)) = 0"
    using unat_and_low [of 12 "sym_user_text_start L"] assms by (simp add: linker_ok_def)
  then show "encodable (sym_user_text_start L, 0x1000)"
    by (simp add: encodable_def is_power_of_two_def unat_eq_0)
  show "encodable (UART_BASE, 0x1000)" by (simp add: encodable_def is_power_of_two_def UART_BASE_def)
qed

lemma does_spawn_task:
  assumes L: "linker_ok (symbols E)" and n: "n < 3"
    and K: "ALLOCATOR K = boot_heap E n" "SCHEDULER K = boot_table E n"
    and code: "encodable code" "list_all encodable regs" "length regs \<le> 10"
    and task: "boot_tasks E ! n = user_task_of n e code regs (stack_of (boot_heap E n))"
  shows "does (bind_comp (spawn (TaskSpec_user e (fst code) (snd code) regs)) (\<lambda>i. block [
       puts ''[sched] task created: '', put_dec (id_number i), puts newline]))
     (crlf (bytes ''[sched] task created: '') @ dec_bytes n @ [13, 10]) K ()
     (K\<lparr>ALLOCATOR := boot_heap E (Suc n), SCHEDULER := boot_table E (Suc n)\<rparr>)"
proof -
  let ?K = "K\<lparr>ALLOCATOR := boot_heap E (Suc n), SCHEDULER := boot_table E (Suc n)\<rparr>"
  have "4 - n = Suc (3 - n)" using n by simp
  then have "roomy (Suc (3 - n)) (ALLOCATOR K)" using boot_roomy [OF L, of n] n K(1) by simp
  moreover have "first_free (SCHEDULER K) = Some n" using boot_free [OF n, of E] K(2) by simp
  ultimately have "does (spawn (TaskSpec_user e (fst code) (snd code) regs)) [] K (TaskId (of_nat n))
    (K\<lparr>ALLOCATOR := after_stack (ALLOCATOR K), SCHEDULER := (SCHEDULER K)\<lparr>tasks := (tasks (SCHEDULER K))
        [n := Some (user_task_of n e code regs (stack_of (ALLOCATOR K)))]\<rparr>\<rparr>)"
    using code by (rule does_spawn_user)
  then have sp: "does (spawn (TaskSpec_user e (fst code) (snd code) regs)) [] K (TaskId (of_nat n)) ?K"
    using boot_table_step [OF n, of E] K task by (simp add: boot_heap_def)
  have "does (bind_comp (spawn (TaskSpec_user e (fst code) (snd code) regs)) (\<lambda>i. block [
       puts ''[sched] task created: '', put_dec (id_number i), puts newline]))
     ([] @ crlf (bytes ''[sched] task created: '') @ dec_bytes n @ [13, 10]) K () ?K"
    by (rule does_bind [OF sp]) (rule does_announce, use n in simp)
  then show ?thesis by simp
qed

lemma does_spawn_users:
  assumes L: "linker_ok (symbols E)"
  shows "ALLOCATOR K = boot_heap E 1 \<Longrightarrow> SCHEDULER K = boot_table E 1 \<Longrightarrow>
      does (spawn_echo_task E (sym_user_text_start (symbols E))) (crlf (bytes (''[sched] task created: 1'' @ newline))) K ()
      (K\<lparr>ALLOCATOR := boot_heap E 2, SCHEDULER := boot_table E 2\<rparr>)"
    and "ALLOCATOR K = boot_heap E 2 \<Longrightarrow> SCHEDULER K = boot_table E 2 \<Longrightarrow>
      does (spawn_violation_task E (sym_user_text_start (symbols E))) (crlf (bytes (''[sched] task created: 2'' @ newline))) K ()
      (K\<lparr>ALLOCATOR := boot_heap E 3, SCHEDULER := boot_table E 3\<rparr>)"
proof -
  let ?code = "(sym_user_text_start (symbols E), 0x1000)"
  note enc = user_code_encodable [OF L]
  have two: "Suc 1 = (2 :: nat)" "Suc 2 = (3 :: nat)" by simp_all
  assume K: "ALLOCATOR K = boot_heap E 1" "SCHEDULER K = boot_table E 1"
  have "boot_tasks E ! 1 = user_task_of 1 (echo_entry E) ?code [(UART_BASE, 0x1000)] (stack_of (boot_heap E 1))"
    by (simp add: boot_tasks_def Let_def)
  from does_spawn_task [OF L _ K enc(1) _ _ this] enc(2)
  show "does (spawn_echo_task E (sym_user_text_start (symbols E))) (crlf (bytes (''[sched] task created: 1'' @ newline))) K ()
      (K\<lparr>ALLOCATOR := boot_heap E 2, SCHEDULER := boot_table E 2\<rparr>)"
    unfolding two by (simp add: spawn_echo_task_def crlf_append newline_bytes digits_small dec_digit_def del: block.simps)
next
  let ?code = "(sym_user_text_start (symbols E), 0x1000)"
  note enc = user_code_encodable [OF L]
  have two: "Suc 1 = (2 :: nat)" "Suc 2 = (3 :: nat)" by simp_all
  assume K: "ALLOCATOR K = boot_heap E 2" "SCHEDULER K = boot_table E 2"
  have "boot_tasks E ! 2 = user_task_of 2 (violation_entry E) ?code [] (stack_of (boot_heap E 2))"
    by (simp add: boot_tasks_def Let_def)
  from does_spawn_task [OF L _ K enc(1) _ _ this]
  show "does (spawn_violation_task E (sym_user_text_start (symbols E))) (crlf (bytes (''[sched] task created: 2'' @ newline))) K ()
      (K\<lparr>ALLOCATOR := boot_heap E 3, SCHEDULER := boot_table E 3\<rparr>)"
    unfolding two by (simp add: spawn_violation_task_def crlf_append newline_bytes digits_small dec_digit_def del: block.simps)
qed

lemma boot_table_ok:
  assumes "linker_ok (symbols E)"
  shows "sched_ok MAX_TASKS (boot_table E 3)"
proof -
  let ?k = "\<lambda>n. fresh_kernel\<lparr>ALLOCATOR := boot_heap E n, SCHEDULER := boot_table E n\<rparr>"
  let ?code = "(sym_user_text_start (symbols E), 0x1000)"
  have room: "heap_ok (ALLOCATOR (?k n))" "fits stack_layout (ALLOCATOR (?k n))" "first_free (SCHEDULER (?k n)) = Some n"
    if "n < 3" for n
  proof -
    have "4 - n = Suc (3 - n)" using that by simp
    then have "roomy (Suc (3 - n)) (boot_heap E n)" using boot_roomy [OF assms, of n] that by simp
    from roomy_stack [OF this] boot_free [OF that, of E]
    show "heap_ok (ALLOCATOR (?k n))" "fits stack_layout (ALLOCATOR (?k n))" "first_free (SCHEDULER (?k n)) = Some n"
      by simp_all
  qed
  have step: "sched_ok MAX_TASKS (boot_table E (Suc n))"
    if "n < 3" "sched_ok MAX_TASKS (boot_table E n)" "SCHEDULER (final_state (spawn spec (?k n))) = (boot_table E n)\<lparr>tasks :=
      (tasks (boot_table E n))[n := Some (boot_tasks E ! n)]\<rparr>" for n spec
  proof -
    have "sched_inv (final_state (spawn spec (?k n)))" by (rule keepsD [OF keeps_spawn]) (use that(2) in simp)
    with that(3) boot_table_step [OF that(1), of E] show ?thesis by simp
  qed
  have "sched_ok MAX_TASKS (boot_table E 0)" using fresh_kernel_ok(1) by (simp add: boot_table_init fresh_kernel_def)
  then have "sched_ok MAX_TASKS (boot_table E (Suc 0))"
    by (rule step [of 0 "TaskSpec_machine (idle_entry E)", rotated 1])
      (simp_all add: spawn_machine_run [OF room] boot_tasks_def Let_def)
  then have "sched_ok MAX_TASKS (boot_table E (Suc 1))"
    by (intro step [of 1 "TaskSpec_user (echo_entry E) (fst ?code) (snd ?code) [(UART_BASE, 0x1000)]"])
      (simp_all add: spawn_user_run [OF room user_code_encodable(1) [OF assms], of 1 "[(UART_BASE, 0x1000)]", simplified]
        user_code_encodable(2) [OF assms] boot_tasks_def Let_def)
  then have "sched_ok MAX_TASKS (boot_table E 2)" by (simp only: Suc_1)
  then have "sched_ok MAX_TASKS (boot_table E (Suc 2))"
    by (intro step [of 2 "TaskSpec_user (violation_entry E) (fst ?code) (snd ?code) []"])
      (simp_all add: spawn_user_run [OF room user_code_encodable(1) [OF assms], of 2 "[]", simplified]
        boot_tasks_def Let_def)
  then show ?thesis by (simp add: numeral_3_eq_3 numeral_2_eq_2)
qed


lemma does_start_scheduler:
  assumes "linker_ok (symbols E)" "SCHEDULER K = boot_table E 3"
  shows "does start_scheduler (crlf (bytes (''[kernel] Scheduler started '' @ em_dash @ '' idle task handles wfi'' @ newline))) K ()
    (K\<lparr>SCHEDULER := boot_sched E, mstatus_csr := mstatus_csr K OR MIE\<rparr>)"
proof -
  have init: "does sched_init [] K () (K\<lparr>SCHEDULER := boot_sched E\<rparr>)"
  proof (rule does_update [where u = "\<lambda>k. k\<lparr>SCHEDULER := boot_sched E\<rparr>"])
    fix k assume "quiet k = K"
    then have "SCHEDULER k = boot_table E 3" using assms(2) by auto
    then show "sched_init k = Return () (k\<lparr>SCHEDULER := boot_sched E\<rparr>)"
      using sched_init_run [of k] boot_table_ok [OF assms(1)] by (simp add: boot_sched_def boot_table_def)
  qed auto
  have "does enable_interrupts [] K () (K\<lparr>mstatus_csr := mstatus_csr K OR MIE\<rparr>)" for K :: "'a kernel_scheme"
    by (rule does_update [where u = "\<lambda>k. k\<lparr>mstatus_csr := mstatus_csr k OR MIE\<rparr>"])
      (auto simp: enable_interrupts_def csr_write_runs)
  from does_block_Cons [OF init does_block_Cons [OF this does_block_Cons [OF does_puts does_block_Nil]],
      of "''[kernel] Scheduler started '' @ em_dash @ '' idle task handles wfi'' @ newline"]
  show ?thesis unfolding start_scheduler_def by simp
qed

definition boot_state :: "boot_env \<Rightarrow> 'a kernel_scheme \<Rightarrow> 'a kernel_scheme" where
  "boot_state E K = (with_kernel_pmp (symbols E) (K\<lparr>mtvec_csr := trap_entry E\<rparr>))
     \<lparr>mie_csr := mie_csr K OR MTIE, mtimecmp := mtime K + 100000, ALLOCATOR := boot_heap E 3,
       SCHEDULER := boot_sched E, mstatus_csr := mstatus_csr K OR MIE\<rparr>"

lemma does_kmain:
  assumes L: "linker_ok (symbols E)" and K: "pmp_reset K" "SCHEDULER K = SCHEDULER_init"
  shows "does (kmain E) (1 # crlf (bytes boot_log)) K () (boot_state E K)"
proof -
  let ?L = "symbols E"
  let ?K1 = "K\<lparr>ALLOCATOR := heap_after_test ?L\<rparr>"
  let ?K2 = "?K1\<lparr>mtvec_csr := trap_entry E\<rparr>"
  let ?K3 = "with_kernel_pmp ?L ?K2"
  let ?K4 = "?K3\<lparr>mie_csr := mie_csr ?K3 OR MTIE, mtimecmp := mtime ?K3 + 100000\<rparr>"
  let ?K5 = "?K4\<lparr>ALLOCATOR := boot_heap E 1, SCHEDULER := boot_table E 1\<rparr>"
  let ?K6 = "?K5\<lparr>ALLOCATOR := boot_heap E 2, SCHEDULER := boot_table E 2\<rparr>"
  let ?K7 = "?K6\<lparr>ALLOCATOR := boot_heap E 3, SCHEDULER := boot_table E 3\<rparr>"
  let ?K8 = "?K7\<lparr>SCHEDULER := boot_sched E, mstatus_csr := mstatus_csr ?K7 OR MIE\<rparr>"
  have "entry_cfg ?K2 = entry_cfg K" by (rule ext) (simp add: entry_cfg_def)
  then have "pmp_reset ?K2" using K(1) by (simp add: pmp_reset_def)
  note pmp = does_pmp_init [OF L this]
  have K4: "ALLOCATOR ?K4 = boot_heap E 0" "SCHEDULER ?K4 = boot_table E 0"
    using K(2) by (simp_all add: with_kernel_pmp_def boot_heap_def boot_table_init)
  note idle = does_spawn_idle [OF L K4]
  have K5: "ALLOCATOR ?K5 = boot_heap E 1" "SCHEDULER ?K5 = boot_table E 1"
    and K6: "ALLOCATOR ?K6 = boot_heap E 2" "SCHEDULER ?K6 = boot_table E 2"
    and K7: "SCHEDULER ?K7 = boot_table E 3" by simp_all
  note echo = does_spawn_users(1) [OF L K5] and violation = does_spawn_users(2) [OF L K6]
  note run = does_block_Cons [OF does_print_banner does_block_Cons [OF does_init_heap [OF L]
      does_block_Cons [OF does_trap_init does_block_Cons [OF pmp does_block_Cons [OF does_timer_init
      does_block_Cons [OF idle does_block_Cons [OF echo does_block_Cons [OF violation
      does_block_Cons [OF does_start_scheduler [OF L K7] does_block_Nil]]]]]]]], folded kmain_def]
  have "(1 # crlf (bytes b)) @ crlf (bytes (s1 @ n @ s2 @ n)) @ crlf (bytes (s3 @ n)) @ crlf (bytes (s4 @ n)) @
      crlf (bytes (s5 @ n)) @ crlf (bytes (s6 @ n)) @ crlf (bytes (s7 @ n)) @ crlf (bytes (s8 @ n)) @
      crlf (bytes (s9 @ d @ s10 @ n)) @ [] =
      1 # crlf (bytes (b @ s1 @ n @ s2 @ n @ s3 @ n @ s4 @ n @ s5 @ n @ s6 @ n @ s7 @ n @ s8 @ n @ s9 @ d @ s10 @ n))"
    for b s1 s2 s3 s4 s5 s6 s7 s8 s9 s10 n d
    by (simp add: crlf_append)
  note log = this [of banner_text "''[alloc] Heap initialized''" newline "''[alloc] Test alloc ok, len=3''"
      "''[trap] mtvec initialized''" "''[pmp] Kernel entries locked''" "''[timer] CLINT initialized, tick=10ms''"
      "''[sched] idle task created: 0''" "''[sched] task created: 1''" "''[sched] task created: 2''"
      "''[kernel] Scheduler started ''" em_dash "'' idle task handles wfi''", folded boot_log_def]
  have "?K8 = boot_state E K"
    by (rule kernel.equality) (simp_all add: boot_state_def with_kernel_pmp_def)
  with run show ?thesis by (simp only: log)
qed

lemma boot_state_inv:
  assumes "linker_ok (symbols E)"
  shows "kernel_inv (symbols E) (boot_state E K)"
proof -
  let ?k = "boot_state E K"
  have "entry_cfg ?k i = init_cfg i" if "i < 16" for i
  proof -
    have "i \<in> {0, 1, 2, 3, 4, 5, 6, 7} \<or> 8 \<le> i" by auto
    then have "(if i < 8 then byte_of 0x9B8B8C00 i else byte_of 0 (i - 8)) = init_cfg i"
      by (auto simp: byte_of_def init_cfg_def)
    then show ?thesis by (auto simp: entry_cfg_def boot_state_def with_kernel_pmp_def split: if_splits)
  qed
  moreover have "pmpaddr_csr ?k = init_addr (symbols E)" by (simp add: boot_state_def with_kernel_pmp_def)
  ultimately have "kernel_entries (symbols E) ?k" "task_entries_unlocked ?k"
    by (simp_all add: kernel_entries_def task_entries_unlocked_def entry_addr_def init_cfg_def init_addr_def kernel_flags)
  moreover have "sched_inv ?k"
  proof -
    have "sched_inv (fresh_kernel\<lparr>SCHEDULER := boot_table E 3\<rparr>)" using boot_table_ok [OF assms] by simp
    from keepsD [OF keeps_sched_init this] sched_init_run [OF this] show ?thesis
      by (simp add: boot_state_def boot_sched_def boot_table_def)
  qed
  moreover have "current_loaded ?k" by (simp add: current_loaded_def current_regions_def boot_state_def boot_sched_def)
  ultimately show ?thesis by (simp add: kernel_inv_def)
qed

lemma kmain_run:
  assumes "linker_ok (symbols E)" "pmp_reset k" "SCHEDULER k = SCHEDULER_init"
    and "length (crlf (bytes boot_log)) < tx_budget k"
  obtains k' tr where "kmain E k = Return () k'" "quiet k' = boot_state E (quiet k)"
    "mmio_trace k' = mmio_trace k @ tr" "thr_bytes tr = 1 # crlf (bytes boot_log)"
    "kernel_inv (symbols E) k'"
proof -
  have room: "length (1 # crlf (bytes boot_log)) \<le> tx_budget k" using assms(4) by simp
  have reset: "pmp_reset (quiet k)" "SCHEDULER (quiet k) = SCHEDULER_init"
    using assms(2,3) by (simp_all add: pmp_reset_def)
  obtain k' tr where run: "kmain E k = Return () k'" "quiet k' = boot_state E (quiet k)"
    "mmio_trace k' = mmio_trace k @ tr" "thr_bytes tr = 1 # crlf (bytes boot_log)"
    by (rule doesD [OF does_kmain [OF assms(1) reset] refl room])
  have "kernel_inv (symbols E) (quiet k')" using boot_state_inv [OF assms(1)] run(2) by simp
  then have "kernel_inv (symbols E) k'" by (simp add: quiet_def)
  with run show ?thesis by (rule that)
qed

lemma boot_state_fields:
  assumes "quiet k' = boot_state E (quiet k)"
  shows "SCHEDULER k' = boot_sched E" "mtvec_csr k' = trap_entry E" "mtimecmp k' = mtime k + 100000"
    "mie_csr k' = mie_csr k OR MTIE" "mstatus_csr k' = mstatus_csr k OR MIE"
  using arg_cong [OF assms, of SCHEDULER] arg_cong [OF assms, of mtvec_csr] arg_cong [OF assms, of mtimecmp]
    arg_cong [OF assms, of mie_csr] arg_cong [OF assms, of mstatus_csr]
  by (simp_all add: boot_state_def with_kernel_pmp_def quiet_def)

text \<open>
  C6: The kernel boots. On a hart with no locked PMP entry, with the statics as the image holds them
  and room in the transmitter for the log, \<open>kmain\<close> runs to its waiting loop. It has written the
  baud-rate divisor and then exactly the boot log to the UART's data register; the trap vector
  is installed, the timer armed 10 ms ahead, its interrupt and interrupts as such enabled; the
  idle task and the two user tasks are ready in slots 0 to 2 on stacks of their own; and the
  kernel's invariant holds, so that everything shown of traps applies from here on.
\<close>

theorem kmain_boots:
  assumes "linker_ok (symbols E)" "pmp_reset k" "SCHEDULER k = SCHEDULER_init"
    and "length (crlf (bytes boot_log)) < tx_budget k"
  shows "\<exists>k' tr. kmain E k = Return () k' \<and> mmio_trace k' = mmio_trace k @ tr \<and>
    thr_bytes tr = 1 # crlf (bytes boot_log) \<and>
    kernel_inv (symbols E) k' \<and> SCHEDULER k' = boot_sched E \<and>
    mtvec_csr k' = trap_entry E \<and> mtimecmp k' = mtime k + 100000 \<and>
    bit (mie_csr k') 7 \<and> bit (mstatus_csr k') 3"
proof -
  obtain k' tr where run: "kmain E k = Return () k'" "quiet k' = boot_state E (quiet k)"
    "mmio_trace k' = mmio_trace k @ tr" "thr_bytes tr = 1 # crlf (bytes boot_log)" "kernel_inv (symbols E) k'"
    by (rule kmain_run [OF assms])
  have "bit (v OR MTIE) 7" "bit (v OR MIE) 3" for v :: u64
    by (simp_all add: bit_or_iff MTIE_def MIE_def bit_push_bit_iff)
  with run boot_state_fields [OF run(2)] show ?thesis
    by (intro exI [of _ k'] exI [of _ tr]) simp
qed

definition example_env :: boot_env where
  "example_env = \<lparr>symbols = linker_example, trap_entry = 0x80000100, idle_entry = 0x80000400,
     echo_entry = 0x80008040, violation_entry = 0x80008000, oom_line = 1\<rparr>"

definition reset_kernel :: "u8 list \<Rightarrow> kernel" where
  "reset_kernel vs = hart.extend (reset_hart vs)
     \<lparr>TICK_COUNT = TICK_COUNT_init, SCHEDULER = SCHEDULER_init, ALLOCATOR = ALLOCATOR_init\<rparr>"

lemma reset_kernel_ok:
  "pmp_reset (reset_kernel vs)" "SCHEDULER (reset_kernel vs) = SCHEDULER_init"
  "tx_budget (reset_kernel (replicate n 0x20)) = n"
  using reset_hart_pmp [of vs]
  by (simp_all add: reset_kernel_def hart.defs reset_hart_def pmp_reset_def entry_cfg_def tx_budget_def
      tx_ready_def LSR_TX_EMPTY_def)

lemma length_boot_log: "length (crlf (bytes boot_log)) < 1000"
proof -
  have "length boot_log < 400"
    by (simp add: boot_log_def banner_text_def em_dash_def newline_def)
  then show ?thesis using length_crlf [of "bytes boot_log"] by simp
qed

theorem kmain_boots_witness:
  "\<exists>k'. kmain example_env (reset_kernel (replicate 1000 0x20)) = Return () k' \<and>
     kernel_inv linker_example k' \<and> mtvec_csr k' = 0x80000100 \<and> mtimecmp k' = 100000"
proof -
  have E: "linker_ok (symbols example_env)" "trap_entry example_env = 0x80000100"
    "symbols example_env = linker_example"
    by (simp_all add: example_env_def linker_example_ok)
  have t: "mtime (reset_kernel (replicate 1000 0x20)) = 0"
    by (simp add: reset_kernel_def hart.defs reset_hart_def)
  have "length (crlf (bytes boot_log)) < tx_budget (reset_kernel (replicate 1000 0x20))"
    using length_boot_log by (simp add: reset_kernel_ok)
  from kmain_boots [OF E(1) reset_kernel_ok(1,2) this] E t show ?thesis by auto
qed

lemma start_hart_run:
  fixes s :: "'a cpu_scheme"
  assumes "linker_ok (symbols E)" "pmp_reset s" "SCHEDULER s = SCHEDULER_init"
    and "length (crlf (bytes boot_log)) < tx_budget s"
  obtains s' where "start_hart E 0 s = Return () s'" "kernel_inv (symbols E) s'" "SCHEDULER s' = boot_sched E"
    "gpr s' SP = sym_stack_top (symbols E)" "priv s' = priv s"
    "mem s' = (\<lambda>x. if sym_sbss (symbols E) \<le> x \<and> x < sym_ebss (symbols E) then 0 else mem s x)"
proof -
  let ?m = "\<lambda>x. if sym_sbss (symbols E) \<le> x \<and> x < sym_ebss (symbols E) then 0 else mem s x"
  let ?s = "s\<lparr>gpr := (gpr s)(T0 := 0, SP := sym_stack_top (symbols E)), mem := ?m\<rparr>"
  have "entry_cfg ?s = entry_cfg s" by (rule ext) (simp add: entry_cfg_def)
  then have "pmp_reset ?s" "SCHEDULER ?s = SCHEDULER_init" "length (crlf (bytes boot_log)) < tx_budget ?s"
    using assms(2-4) by (simp_all add: pmp_reset_def tx_budget_def)
  then obtain s' where run: "kmain E ?s = Return () s'" "quiet s' = boot_state E (quiet ?s)" "kernel_inv (symbols E) s'"
    by (rule kmain_run [OF assms(1)])
  have "start_hart E 0 s = Return () s'"
    using run(1) by (simp add: start_hart_def then_comp_def bind_comp_def modify_def clear_bss_def clear_loop_eq skip_run cong: if_cong)
  moreover have "gpr s' = gpr ?s" "mem s' = ?m" "priv s' = priv s"
    using arg_cong [OF run(2), of gpr] arg_cong [OF run(2), of mem] arg_cong [OF run(2), of priv]
    by (simp_all add: boot_state_def with_kernel_pmp_def quiet_def)
  ultimately show ?thesis using run(3) boot_state_fields(1) [OF run(2)] by (intro that [of s']) simp_all
qed


definition reset_cpu :: "memory \<Rightarrow> cpu" where
  "reset_cpu m = kernel.extend (reset_kernel (replicate 1000 0x20))
     \<lparr>gpr = (\<lambda>_. 0), mem = m, pc = 0x80000000, priv = M_mode\<rparr>"

lemma reset_cpu_ok:
  "pmp_reset (reset_cpu m)" "SCHEDULER (reset_cpu m) = SCHEDULER_init"
  "length (crlf (bytes boot_log)) < tx_budget (reset_cpu m)" "priv (reset_cpu m) = M_mode"
proof -
  let ?k = "reset_kernel (replicate 1000 0x20)" and ?s = "reset_cpu m"
  have "entry_cfg ?s = entry_cfg ?k" by (rule ext) (simp add: reset_cpu_def entry_cfg_def kernel.defs)
  moreover have "pmpaddr_csr ?s = pmpaddr_csr ?k" "SCHEDULER ?s = SCHEDULER ?k" "uart_in ?s = uart_in ?k"
    by (simp_all add: reset_cpu_def kernel.defs)
  ultimately show "pmp_reset ?s" "SCHEDULER ?s = SCHEDULER_init" "length (crlf (bytes boot_log)) < tx_budget ?s"
    using reset_kernel_ok(1,2) [of "replicate 1000 0x20"] reset_kernel_ok(3) [of 1000] length_boot_log
    by (simp_all add: pmp_reset_def tx_budget_def)
  show "priv ?s = M_mode" by (simp add: reset_cpu_def kernel.defs)
qed


section \<open>Panics\<close>

text \<open>
  A panic ends the kernel: the runtime calls the panic handler, which never returns. A run that
  ends there is \<open>None\<close>.
\<close>

definition kernel_run :: "('a hart_scheme, 'b) comp \<Rightarrow> ('a hart_scheme, 'b option) comp" where
  "kernel_run m k = (case m k of
      Return a k' \<Rightarrow> Return (Some a) k'
    | Panic info k' \<Rightarrow> then_comp (panic_handler info) (ret None) k'
    | Hang k' \<Rightarrow> Hang k')"

definition panic_text :: "panic_info \<Rightarrow> string" where
  "panic_text info = newline @ ''!!! KERNEL PANIC !!!'' @ newline @
     ''at '' @ panic_file info @ '':'' @ fmt_dec (of_nat (panic_line info)) @ newline"

lemma emits_panic_handler: "emits (panic_handler info) (crlf (bytes (panic_text info)))"
proof -
  have "emits (panic_handler info) (crlf (bytes (concat [newline @ ''!!! KERNEL PANIC !!!''] @ newline)) @
      crlf (bytes (concat [''at '', panic_file info, '':'', fmt_dec (of_nat (panic_line info))] @ newline)) @ [])"
    unfolding panic_handler_def block.simps by (intro emits_then emits_println emits_skip)
  then show ?thesis by (simp add: panic_text_def crlf_append)
qed

lemma kernel_run_panic:
  fixes m :: "('a hart_scheme, unit) comp"
  assumes "emits m bs"
  shows "kernel_run (then_comp m (panic_at file line msg)) k =
    then_comp (then_comp m (panic_handler \<lparr>panic_message = msg, panic_file = file, panic_line = line\<rparr>)) (ret None) k"
proof (cases "length bs \<le> tx_budget k")
  case True
  then show ?thesis
    by (rule emitsD [OF assms]) (simp add: kernel_run_def then_comp_def bind_comp_def panic_at_def)
next
  case False
  then show ?thesis
    by (rule emits_HangD [OF assms]) (simp add: kernel_run_def then_comp_def bind_comp_def)
qed

definition fatal_text :: "u64 \<Rightarrow> u64 \<Rightarrow> u64 \<Rightarrow> string" where
  "fatal_text c me mt =
     ''[trap] FATAL: '' @ fatal_name c @ newline @ ''  mepc:  '' @ fmt_hex me @ newline @
     ''  mtval: '' @ fmt_hex mt @ newline @
     newline @ ''!!! KERNEL PANIC !!!'' @ newline @ ''at crates/kernel/src/trap.rs:355'' @ newline"

lemma length_fatal_text: "length (crlf (bytes (fatal_text c me mt))) \<le> 512"
proof -
  have "length (fmt_hex me) \<le> 18" "length (fmt_hex mt) \<le> 18" by (rule length_fmt)+
  then have "length (fatal_text c me mt) \<le> 256"
    using length_fatal_name [of c] by (simp add: fatal_text_def newline_def)
  then show ?thesis using length_crlf [of "bytes (fatal_text c me mt)"] by simp
qed

text \<open>
  C16: What a fatal exception reports. When an exception that the kernel cannot survive
  arrives, the console shows its name, the address of the instruction and the faulting address,
  then the banner of the panic handler with the source line, and the kernel ends in the
  handler's loop. Those are exactly the bytes transmitted, in that order, and nothing of the
  kernel's state but the console has changed.
\<close>

theorem fatal_trap_report:
  fixes k :: "'a kernel_scheme"
  assumes "\<not> bit (mcause_csr k) 63" "c = take_bit 63 (mcause_csr k)"
    and "c \<in> {0, 1, 2, 4, 5, 6, 7, 12, 13, 15}" "fatal_cause c (mstatus_csr k)" "512 \<le> tx_budget k"
  shows "\<exists>vs tr. kernel_run (trap_handler frame) k =
      Return None (k\<lparr>uart_in := vs, mmio_trace := mmio_trace k @ tr\<rparr>) \<and>
    thr_bytes tr = crlf (bytes (fatal_text c (mepc_csr k) (mtval_csr k))) \<and> paced tr"
proof -
  let ?args = "[''[trap] FATAL: '', fatal_name c, newline @ ''  mepc:  '', fmt_hex (mepc_csr k),
    newline @ ''  mtval: '', fmt_hex (mtval_csr k)]"
  let ?pr = "println ?args :: ('a kernel_scheme, unit) comp"
  let ?info = "\<lparr>panic_message = fatal_name c, panic_file = ''crates/kernel/src/trap.rs'', panic_line = 355\<rparr>"
  have dec: "fmt_dec 355 = ''355''" by code_simp
  have "emits (then_comp ?pr (panic_handler ?info)) (crlf (bytes (fatal_text c (mepc_csr k) (mtval_csr k))))"
    using emits_then [OF emits_println emits_panic_handler, of ?args ?info]
    by (simp add: fatal_text_def panic_text_def crlf_append dec)
  then obtain vs tr where run: "then_comp ?pr (panic_handler ?info) k = Return () (k\<lparr>uart_in := vs, mmio_trace := mmio_trace k @ tr\<rparr>)"
    "thr_bytes tr = crlf (bytes (fatal_text c (mepc_csr k) (mtval_csr k)))" "paced tr"
    by (rule emitsD) (rule order_trans [OF length_fatal_text assms(5)])
  have "trap_handler frame k = panic_exception (fatal_name c) (mepc_csr k) (mtval_csr k) k"
    using assms(1,2) handle_exception_fatal [OF assms(4,3)] by (simp add: trap_handler_run)
  then have "kernel_run (trap_handler frame) k = kernel_run (panic_exception (fatal_name c) (mepc_csr k) (mtval_csr k)) k"
    by (simp add: kernel_run_def)
  also have "\<dots> = then_comp (then_comp ?pr (panic_handler ?info)) (ret None) k"
    unfolding panic_exception_def by (rule kernel_run_panic [OF emits_println])
  also have "\<dots> = Return None (k\<lparr>uart_in := vs, mmio_trace := mmio_trace k @ tr\<rparr>)"
    unfolding then_comp_def [of "then_comp ?pr (panic_handler ?info)"] by (simp add: bind_comp_def run(1) ret_def)
  finally show ?thesis using run(2,3) by blast
qed

theorem fatal_trap_report_witness:
  "\<exists>k' tr. kernel_run (trap_handler zero_frame) ((example_kernel (replicate 512 0x20))\<lparr>mcause_csr := 2\<rparr>) =
      Return None k' \<and> mmio_trace k' = mmio_trace (example_kernel (replicate 512 0x20)) @ tr \<and>
    take 21 (thr_bytes tr) = bytes ''[trap] FATAL: Illegal''"
proof -
  let ?k = "(example_kernel (replicate 512 0x20))\<lparr>mcause_csr := 2\<rparr>"
  have "512 \<le> tx_budget ?k"
    using example_budget [of 512] by (simp add: tx_budget_def)
  moreover have "take_bit 63 (2 :: u64) = 2" "\<not> bit (2 :: u64) 63" by (simp_all add: exception_small)
  moreover have "fatal_cause 2 v" for v by (simp add: fatal_cause_def)
  moreover have "take 21 (crlf (bytes (fatal_text 2 me mt))) = bytes ''[trap] FATAL: Illegal''" for me mt
    by (simp add: fatal_text_def fatal_name_def crlf_append)
  ultimately show ?thesis
    using fatal_trap_report [of ?k 2 zero_frame] by auto
qed

end
