(* ===== verification/User_Task.thy ===== *)
theory User_Task
  imports Booting
begin

text \<open>
  The embedded user tasks, \<open>crates/kernel/src/user_task.rs\<close>, run on the whole chain below them: the
  instruction traps, the trap vector saves the registers, the handler serves the trap and
  \<open>mret\<close> resumes. The addresses of the instructions between two traps are not tracked, and
  what the compiled handler leaves in scratch registers and memory is a parameter. The idle task
  of \<open>crates/kernel/src/main.rs\<close> is here as well.
\<close>

type_synonym 'a compiled = "'a cpu_scheme \<Rightarrow> (reg \<Rightarrow> u64) \<times> memory"

definition li :: "reg \<Rightarrow> u64 \<Rightarrow> ('a cpu_scheme, unit) comp" where
  "li r v = modify (set_reg r v)"

definition enter_kernel :: "'a compiled \<Rightarrow> u64 \<Rightarrow> u64 \<Rightarrow> ('a cpu_scheme, unit) comp" where
  "enter_kernel leaves cause tval s =
     (let s1 = take_trap cause tval s in trap_vector (fst (leaves s1)) (snd (leaves s1)) s1)"

definition ecall :: "'a compiled \<Rightarrow> ('a cpu_scheme, unit) comp" where
  "ecall leaves s = enter_kernel leaves (case priv s of U_mode \<Rightarrow> 8 | M_mode \<Rightarrow> 11) 0 s"

text \<open>A load of eight bytes, refused with an access fault when the PMP denies one of them.\<close>

definition ld :: "'a compiled \<Rightarrow> reg \<Rightarrow> u64 \<Rightarrow> reg \<Rightarrow> ('a cpu_scheme, unit) comp" where
  "ld leaves rd off rs s =
     (let a = gpr s rs + off
      in if list_all (\<lambda>i. hart_allows s (priv s) AccRead (a + of_nat i)) [0..<8]
         then Return () (set_reg rd (load64 (mem s) a) s)
         else enter_kernel leaves 5 a s)"

section \<open>The tasks\<close>

text \<open>
  The call numbers as this module has them; the assembly loads the literals. They have to agree
  with those the kernel dispatches on.
\<close>

definition user_SYS_GETC :: u64 where "user_SYS_GETC = 0"
definition user_SYS_PUTC :: u64 where "user_SYS_PUTC = 1"

lemma user_call_numbers: "user_SYS_GETC = SYS_GETC" "user_SYS_PUTC = SYS_PUTC"
  by (simp_all add: user_SYS_GETC_def user_SYS_PUTC_def SYS_GETC_def SYS_PUTC_def)

text \<open>The registers of the violating load are the compiler's choice.\<close>

definition user_violation_task :: "'a compiled \<Rightarrow> reg \<Rightarrow> reg \<Rightarrow> ('a cpu_scheme, unit) comp" where
  "user_violation_task leaves val addr = block [li addr 0x80000000, ld leaves val 0 addr]"

definition echo_getc :: "'a compiled \<Rightarrow> ('a cpu_scheme, u64) comp" where
  "echo_getc leaves = then_comp (block [li A7 0, ecall leaves]) (gets (\<lambda>s. gpr s A0))"

definition echo_byte :: "'a compiled \<Rightarrow> u64 \<Rightarrow> ('a cpu_scheme, unit) comp" where
  "echo_byte leaves byte =
     (if byte = 0xFF then skip
      else then_comp (block [li A0 byte, li A7 1, ecall leaves])
        (if byte = 13 then block [li A7 1, li A0 10, ecall leaves] else skip))"

definition echo_iteration :: "'a compiled \<Rightarrow> ('a cpu_scheme, unit) comp" where
  "echo_iteration leaves = bind_comp (echo_getc leaves) (echo_byte leaves)"

text \<open>The first iterations of the endless loop.\<close>

primrec user_echo_task :: "'a compiled \<Rightarrow> nat \<Rightarrow> ('a cpu_scheme, unit) comp" where
  "user_echo_task leaves 0 = skip"
| "user_echo_task leaves (Suc n) = then_comp (echo_iteration leaves) (user_echo_task leaves n)"

text \<open>
  The idle task of \<open>main.rs\<close> waits for interrupts forever. \<open>wfi\<close> stalls the hart and changes
  nothing; the interrupt that ends the wait is a trap of its own.
\<close>

definition wfi :: "('a cpu_scheme, unit) comp" where
  "wfi = skip"

primrec idle_task_entry :: "nat \<Rightarrow> ('a cpu_scheme, unit) comp" where
  "idle_task_entry 0 = skip"
| "idle_task_entry (Suc n) = then_comp wfi (idle_task_entry n)"

lemma idle_task_run: "idle_task_entry n s = Return () s"
  by (induction n) (simp_all add: wfi_def skip_run then_comp_def bind_comp_def)

section \<open>System calls of a task\<close>

lemma enter_kernel_run:
  fixes s :: "'a cpu_scheme"
  assumes "trap_handler (frame_of_regs (gpr s)) (take_trap cause tval s) = Return f s'"
  obtains m where "enter_kernel leaves cause tval s =
    Return () (exec_mret (s'\<lparr>gpr := regs_of_frame f, mem := m, mscratch_csr := gpr s SP\<rparr>))"
proof -
  have "gpr (take_trap cause tval s) = gpr s" by (simp add: take_trap_def)
  then show ?thesis
    using trap_vector_returns [of "take_trap cause tval s" f s'] assms
    by (intro that) (simp add: enter_kernel_def Let_def)
qed


text \<open>The kernel's state as a task's call leaves it: only the console and the trap registers differ.\<close>

definition same_kernel :: "'a cpu_scheme \<Rightarrow> 'a cpu_scheme \<Rightarrow> bool" where
  "same_kernel s s' \<longleftrightarrow> SCHEDULER s' = SCHEDULER s \<and> ALLOCATOR s' = ALLOCATOR s \<and>
     TICK_COUNT s' = TICK_COUNT s \<and> pmpaddr_csr s' = pmpaddr_csr s \<and>
     pmpcfg0_csr s' = pmpcfg0_csr s \<and> pmpcfg2_csr s' = pmpcfg2_csr s \<and>
     mtvec_csr s' = mtvec_csr s \<and> mie_csr s' = mie_csr s \<and> mtimecmp s' = mtimecmp s"

lemma same_kernel_trans: "same_kernel s t \<Longrightarrow> same_kernel t u \<Longrightarrow> same_kernel s u"
  by (simp add: same_kernel_def)

text \<open>
  \<open>calls s s' vs out\<close>: the task has gone from \<open>s\<close> to \<open>s'\<close> in user mode through the kernel, which
  sent \<open>out\<close> and left the answers \<open>vs\<close> of the device unread.
\<close>

definition calls :: "'a cpu_scheme \<Rightarrow> 'a cpu_scheme \<Rightarrow> u8 list \<Rightarrow> u8 list \<Rightarrow> bool" where
  "calls s s' vs out \<longleftrightarrow> priv s' = U_mode \<and> uart_in s' = vs \<and> same_kernel s s' \<and>
     (\<exists>tr. mmio_trace s' = mmio_trace s @ tr \<and> thr_bytes tr = out)"

lemma calls_trans: "calls s t vs out \<Longrightarrow> calls t u ws out' \<Longrightarrow> calls s u ws (out @ out')"
  by (auto simp: calls_def intro: same_kernel_trans)

lemma calls_set_reg: "calls (set_reg r v s) s' vs out \<longleftrightarrow> calls s s' vs out"
  by (simp add: calls_def same_kernel_def set_reg_def)

lemma calls_inv: "calls s s' vs out \<Longrightarrow> kernel_inv L s' = kernel_inv L s"
  by (rule kernel_inv_frame) (simp_all add: calls_def same_kernel_def)

lemma putc_exact:
  assumes "uart_in h = w @ v # vs" "\<forall>x\<in>set w. x AND LSR_TX_EMPTY = 0" "v AND LSR_TX_EMPTY \<noteq> 0"
  obtains tr where "putc b h = Return () (h\<lparr>uart_in := vs, mmio_trace := mmio_trace h @ tr\<rparr>)" "thr_bytes tr = [b]"
proof -
  have "dropWhile (\<lambda>x. x AND LSR_TX_EMPTY = 0) (uart_in h) = v # vs"
    "takeWhile (\<lambda>x. x AND LSR_TX_EMPTY = 0) (uart_in h) = w"
    using assms by (simp_all add: dropWhile_append2 takeWhile_append2)
  then show ?thesis
    by (intro that [of "reads_lsr w @ reads_lsr [v] @ [MmioWrite8 (UART_BASE + THR) b]"])
      (simp_all add: putc_def then_comp_def bind_comp_def spin_lsr_eq write_volatile8_run thr_bytes_append
        del: dropWhile_eq_Nil_conv)
qed

lemma user_call:
  assumes "priv s = U_mode"
    and "trap_handler (frame_of_regs (gpr s)) (take_trap 8 0 s) =
      Return f (take_trap 8 0 s\<lparr>uart_in := vs, mmio_trace := mmio_trace s @ tr, mepc_csr := me\<rparr>)"
  obtains s' where "ecall leaves s = Return () s'" "calls s s' vs (thr_bytes tr)" "gpr s' = regs_of_frame f"
proof -
  obtain m where "enter_kernel leaves 8 0 s = Return () (exec_mret (take_trap 8 0 s\<lparr>uart_in := vs,
      mmio_trace := mmio_trace s @ tr, mepc_csr := me, gpr := regs_of_frame f, mem := m, mscratch_csr := gpr s SP\<rparr>))"
    (is "_ = Return () ?s'") by (rule enter_kernel_run [OF assms(2)])
  then have "ecall leaves s = Return () ?s'" using assms(1) by (simp add: ecall_def)
  then show ?thesis
    by (rule that [of ?s']) (use assms(1) in \<open>simp_all add: calls_def same_kernel_def exec_mret_def take_trap_def\<close>)
qed

lemma ecall_putc:
  assumes "priv s = U_mode" "gpr s A7 = 1" "uart_in s = w @ v # vs"
    and "\<forall>x\<in>set w. x AND LSR_TX_EMPTY = 0" "v AND LSR_TX_EMPTY \<noteq> 0"
  obtains s' where "ecall leaves s = Return () s'" "calls s s' vs [ucast (gpr s A0)]" "gpr s' = gpr s"
proof -
  let ?k = "take_trap 8 0 s" and ?f = "frame_of_regs (gpr s)"
  have k: "mcause_csr ?k = 8" "uart_in ?k = w @ v # vs" "mmio_trace ?k = mmio_trace s"
    using assms(3) by (simp_all add: take_trap_def)
  have f: "a7 ?f = SYS_PUTC" "a0 ?f = gpr s A0" using assms(2) by (simp_all add: frame_of_regs_def SYS_PUTC_def)
  obtain tr where out: "putc (ucast (gpr s A0)) ?k = Return () (?k\<lparr>uart_in := vs, mmio_trace := mmio_trace ?k @ tr\<rparr>)"
    "thr_bytes tr = [ucast (gpr s A0)]"
    by (rule putc_exact [OF k(2) assms(4,5)])
  have "trap_handler ?f ?k = Return ?f (?k\<lparr>uart_in := vs, mmio_trace := mmio_trace s @ tr, mepc_csr := mepc_csr ?k + 4\<rparr>)"
    using out(1) f
    by (simp add: user_ecall_run [OF k(1)] handle_syscall_def SYS_GETC_def SYS_PUTC_def then_comp_def bind_comp_def ret_def k(3))
  then obtain s' where "ecall leaves s = Return () s'" "calls s s' vs (thr_bytes tr)" "gpr s' = regs_of_frame ?f"
    by (rule user_call [OF assms(1)])
  then show ?thesis using out(2) by (intro that [of s']) simp_all
qed

lemma ecall_getc:
  assumes "priv s = U_mode" "gpr s A7 = 0" "received (uart_in s) = Some (r, vs)"
  obtains s' where "ecall leaves s = Return () s'" "calls s s' vs []"
    "gpr s' A0 = ucast (case r of None \<Rightarrow> 0xFF | Some b \<Rightarrow> b)"
proof -
  let ?k = "take_trap 8 0 s" and ?f = "frame_of_regs (gpr s)"
  have k: "mcause_csr ?k = 8" "received (uart_in ?k) = Some (r, vs)" "mmio_trace ?k = mmio_trace s"
    using assms(3) by (simp_all add: take_trap_def)
  have f: "a7 ?f = SYS_GETC" using assms(2) by (simp add: frame_of_regs_def SYS_GETC_def)
  obtain tr where run: "trap_handler ?f ?k = Return (?f\<lparr>a0 := ucast (case r of None \<Rightarrow> 0xFF | Some b \<Rightarrow> b)\<rparr>)
      (?k\<lparr>uart_in := vs, mmio_trace := mmio_trace ?k @ tr, mepc_csr := mepc_csr ?k + 4\<rparr>)" "thr_bytes tr = []"
    by (rule getc_call_run [OF k(1) f k(2)])
  obtain s' where "ecall leaves s = Return () s'" "calls s s' vs (thr_bytes tr)"
    "gpr s' = regs_of_frame (?f\<lparr>a0 := ucast (case r of None \<Rightarrow> 0xFF | Some b \<Rightarrow> b)\<rparr>)"
    by (rule user_call [OF assms(1) run(1) [unfolded k(3)]])
  then show ?thesis using run(2) by (intro that [of s']) simp_all
qed


section \<open>The echo task\<close>

text \<open>
  What one poll of the receiver sees: a line status without a byte, or one with a byte followed
  by the byte; then, per byte the task sends, the line statuses read until the transmitter
  is empty.
\<close>

definition echo_of :: "u8 \<Rightarrow> u8 list" where
  "echo_of b = (if b = 0xFF then [] else if b = 13 then [13, 10] else [b])"

datatype poll = NoByte u8 | Received u8 u8 "(u8 list \<times> u8) list"

primrec poll_answers :: "poll \<Rightarrow> u8 list" where
  "poll_answers (NoByte l) = [l]"
| "poll_answers (Received l b ws) = l # b # concat (map (\<lambda>(w, v). w @ [v]) ws)"

primrec poll_ok :: "poll \<Rightarrow> bool" where
  "poll_ok (NoByte l) \<longleftrightarrow> l AND LSR_RX_READY = 0"
| "poll_ok (Received l b ws) \<longleftrightarrow> l AND LSR_RX_READY \<noteq> 0 \<and> length ws = length (echo_of b) \<and>
     list_all (\<lambda>(w, v). list_all (\<lambda>x. x AND LSR_TX_EMPTY = 0) w \<and> v AND LSR_TX_EMPTY \<noteq> 0) ws"

primrec poll_echo :: "poll \<Rightarrow> u8 list" where
  "poll_echo (NoByte l) = []"
| "poll_echo (Received l b ws) = echo_of b"

lemma run_li: "then_comp (li r v) m s = m (set_reg r v s)"
  by (simp add: li_def then_comp_def bind_comp_def modify_def)

lemma block_li: "block (li r v # ms) s = block ms (set_reg r v s)"
  by (simp add: run_li)

lemma block_single: "block [m] s = m s"
  by (cases "m s") (simp_all add: then_comp_def bind_comp_def skip_run)

lemma set_reg_sel [simp]:
  "SCHEDULER (set_reg r v s) = SCHEDULER s" "tx_budget (set_reg r v s) = tx_budget s"
  "priv (set_reg r v s) = priv s" "uart_in (set_reg r v s) = uart_in s" "gpr (set_reg r v s) = (gpr s)(r := v)"
  by (simp_all add: set_reg_def tx_budget_def)

lemma send_byte:
  assumes "priv s = U_mode" "uart_in s = w @ v # vs"
    and "list_all (\<lambda>x. x AND LSR_TX_EMPTY = 0) w" "v AND LSR_TX_EMPTY \<noteq> 0"
    and "prog = [li A0 b, li A7 1, ecall leaves] \<or> prog = [li A7 1, li A0 b, ecall leaves]"
  obtains s' where "block prog s = Return () s'" "calls s s' vs [ucast b]"
proof -
  obtain t where t: "block prog s = block [ecall leaves] t" "priv t = U_mode" "gpr t A7 = 1" "gpr t A0 = b"
    "uart_in t = w @ v # vs" "\<And>u out. calls t u vs out = calls s u vs out"
    using assms(5)
  proof
    assume "prog = [li A0 b, li A7 1, ecall leaves]"
    then show thesis
      by (intro that [of "set_reg A7 1 (set_reg A0 b s)"])
        (use assms(1,2) in \<open>simp_all add: block_li calls_set_reg del: block.simps\<close>)
  next
    assume "prog = [li A7 1, li A0 b, ecall leaves]"
    then show thesis
      by (intro that [of "set_reg A0 b (set_reg A7 1 s)"])
        (use assms(1,2) in \<open>simp_all add: block_li calls_set_reg del: block.simps\<close>)
  qed
  have "\<forall>x\<in>set w. x AND LSR_TX_EMPTY = 0" using assms(3) by (simp add: list_all_iff)
  then obtain s' where "ecall leaves t = Return () s'" "calls t s' vs [ucast (gpr t A0)]"
    by (rule ecall_putc [OF t(2,3,5) _ assms(4)])
  then show ?thesis by (intro that [of s']) (simp_all add: t(1,4,6) block_single del: block.simps)
qed

lemma echo_getc_run:
  assumes "priv s = U_mode" "received (uart_in s) = Some (r, vs)"
  obtains s' where "echo_getc leaves s = Return (ucast (case r of None \<Rightarrow> 0xFF | Some b \<Rightarrow> b)) s'"
    "calls s s' vs []"
proof -
  obtain s' where "ecall leaves (set_reg A7 0 s) = Return () s'" "calls (set_reg A7 0 s) s' vs []"
    "gpr s' A0 = ucast (case r of None \<Rightarrow> 0xFF | Some b \<Rightarrow> b)"
    by (rule ecall_getc [of "set_reg A7 0 s" r vs leaves]) (use assms in simp_all)
  then show ?thesis
    by (intro that [of s'])
      (simp_all add: echo_getc_def li_def then_comp_def bind_comp_def modify_def gets_def skip_run calls_set_reg)
qed

lemma ucast_byte:
  fixes b :: u8
  shows "(ucast b :: u64) = 0xFF \<longleftrightarrow> b = 0xFF" "(ucast b :: u64) = 13 \<longleftrightarrow> b = 13" "ucast (ucast b :: u64) = b"
proof -
  show u: "ucast (ucast b :: u64) = b" for b :: u8 by (rule bit_word_eqI) (auto simp: bit_ucast_iff)
  have "(ucast (0xFF :: u8) :: u64) = 0xFF" "(ucast (13 :: u8) :: u64) = 13" by simp_all
  then show "(ucast b :: u64) = 0xFF \<longleftrightarrow> b = 0xFF" "(ucast b :: u64) = 13 \<longleftrightarrow> b = 13"
    using u [of b] u [of "0xFF"] u [of 13] by metis+
qed

lemma echo_byte_run:
  assumes "priv s = U_mode" "uart_in s = concat (map (\<lambda>(w, v). w @ [v]) ws) @ rest"
    and "length ws = length (echo_of b)"
    and "list_all (\<lambda>(w, v). list_all (\<lambda>x. x AND LSR_TX_EMPTY = 0) w \<and> v AND LSR_TX_EMPTY \<noteq> 0) ws"
  obtains s' where "echo_byte leaves (ucast b) s = Return () s'" "calls s s' rest (echo_of b)"
proof (cases "b = 0xFF")
  case True
  then show ?thesis using assms
    by (intro that [of s]) (simp_all add: echo_byte_def echo_of_def skip_run calls_def same_kernel_def)
next
  case False
  then obtain w v ws' where ws: "ws = (w, v) # ws'" "length ws' = length (tl (echo_of b))"
    using assms(3) by (cases ws) (auto simp: echo_of_def split: if_splits)
  obtain s1 where s1: "block [li A0 (ucast b), li A7 1, ecall leaves] s = Return () s1"
    "calls s s1 (concat (map (\<lambda>(w, v). w @ [v]) ws') @ rest) [ucast (ucast b :: u64)]"
    by (rule send_byte [of s w v _ _ "ucast b" leaves]) (use assms(1,2,4) ws(1) in auto)
  show ?thesis
  proof (cases "b = 13")
    case True
    then obtain w' v' where ws': "ws' = [(w', v')]"
      using ws(2) by (auto simp: echo_of_def length_Suc_conv)
    have "priv s1 = U_mode" "uart_in s1 = w' @ v' # rest" using s1(2) ws' by (simp_all add: calls_def)
    then obtain s2 where "block [li A7 1, li A0 10, ecall leaves] s1 = Return () s2" "calls s1 s2 rest [ucast (10 :: u64)]"
      by (rule send_byte [where prog = "[li A7 1, li A0 10, ecall leaves]" and b = 10]) (use assms(4) ws(1) ws' in auto)
    then show ?thesis using s1 True calls_trans [OF s1(2), of s2 rest "[10]"]
      by (intro that [of s2]) (simp_all add: echo_byte_def echo_of_def then_comp_def bind_comp_def del: block.simps)
  next
    case ne: False
    then show ?thesis using s1 False ws(2)
      by (intro that [of s1])
        (simp_all add: echo_byte_def echo_of_def ucast_byte then_comp_def bind_comp_def skip_run del: block.simps)
  qed
qed


lemma echo_iteration_run:
  assumes "priv s = U_mode" "uart_in s = poll_answers p @ rest" "poll_ok p"
  obtains s' where "echo_iteration leaves s = Return () s'" "calls s s' rest (poll_echo p)"
proof (cases p)
  case (NoByte l)
  then have "received (uart_in s) = Some (None, rest)" using assms by simp
  then obtain s' where "echo_getc leaves s = Return (ucast (case None :: u8 option of None \<Rightarrow> 0xFF | Some b \<Rightarrow> b)) s'" "calls s s' rest []"
    by (rule echo_getc_run [OF assms(1)])
  then show ?thesis using NoByte
    by (intro that [of s']) (simp_all add: echo_iteration_def echo_byte_def bind_comp_def skip_run)
next
  case (Received l b ws)
  let ?vs = "concat (map (\<lambda>(w, v). w @ [v]) ws) @ rest"
  have "received (uart_in s) = Some (Some b, ?vs)" using assms Received by simp
  then obtain s1 where s1: "echo_getc leaves s = Return (ucast (case Some b of None \<Rightarrow> 0xFF | Some b \<Rightarrow> b)) s1" "calls s s1 ?vs []"
    by (rule echo_getc_run [OF assms(1)])
  then have "priv s1 = U_mode" "uart_in s1 = ?vs" by (simp_all add: calls_def)
  then obtain s2 where "echo_byte leaves (ucast b) s1 = Return () s2" "calls s1 s2 rest (echo_of b)"
    by (rule echo_byte_run) (use assms(3) Received in simp_all)
  then show ?thesis using s1 Received calls_trans [OF s1(2), of s2 rest "echo_of b"]
    by (intro that [of s2]) (simp_all add: echo_iteration_def bind_comp_def)
qed

lemma echo_task_run:
  assumes "priv s = U_mode" "uart_in s = concat (map poll_answers ps) @ rest" "list_all poll_ok ps"
  obtains s' where "user_echo_task leaves (length ps) s = Return () s'"
    "calls s s' rest (concat (map poll_echo ps))"
  using assms
proof (induction ps arbitrary: s thesis)
  case Nil
  then show ?case by (intro Nil.prems(1) [of s]) (simp_all add: skip_run calls_def same_kernel_def)
next
  case (Cons p ps)
  let ?vs = "concat (map poll_answers ps) @ rest"
  obtain s1 where s1: "echo_iteration leaves s = Return () s1" "calls s s1 ?vs (poll_echo p)"
    by (rule echo_iteration_run [of s p ?vs leaves]) (use Cons.prems in simp_all)
  then have "priv s1 = U_mode" "uart_in s1 = ?vs" by (simp_all add: calls_def)
  then obtain s2 where "user_echo_task leaves (length ps) s1 = Return () s2" "calls s1 s2 rest (concat (map poll_echo ps))"
    using Cons.IH [of s1] Cons.prems(4) by auto
  then show ?case using s1(1) calls_trans [OF s1(2), of s2]
    by (intro Cons.prems(1) [of s2]) (simp_all add: then_comp_def bind_comp_def)
qed


definition example_cpu :: "kernel \<Rightarrow> cpu" where
  "example_cpu k = kernel.extend k \<lparr>gpr = (\<lambda>_. 0), mem = (\<lambda>_. 0), pc = 0x80008000, priv = U_mode\<rparr>"

lemma kernel_inv_example_cpu: "kernel_inv L (example_cpu k) = kernel_inv L k"
proof -
  have "entry_cfg (example_cpu k) = entry_cfg k" "entry_addr (example_cpu k) = entry_addr k"
    by (simp_all add: fun_eq_iff entry_cfg_def entry_addr_def example_cpu_def kernel.defs)
  moreover have "SCHEDULER (example_cpu k) = SCHEDULER k" "pmpaddr_csr (example_cpu k) = pmpaddr_csr k"
    by (simp_all add: example_cpu_def kernel.defs)
  ultimately show ?thesis
    by (simp add: kernel_inv_def kernel_entries_def task_entries_unlocked_def current_loaded_def regions_loaded_def
        split: option.splits)
qed



section \<open>The violating task\<close>

lemma kernel_text_denied:
  assumes "linker_ok L" "sym_user_text_start L < sym_user_text_end L" "kernel_entries L h"
  shows "\<not> hart_allows h p AccRead 0x80000000"
proof -
  have "in_text L 0x80000000" using assms(1,2) by (auto simp: linker_ok_def in_text_def)
  then show ?thesis using kernel_decides(1) [OF assms(1,3)] by simp
qed

lemma kernel_inv_cpu [simp]:
  "kernel_inv L (set_reg r v s) = kernel_inv L s" "kernel_inv L (take_trap c tv s) = kernel_inv L s"
  "kernel_inv L (exec_mret s) = kernel_inv L s" "kernel_inv L (set_regs g m w s) = kernel_inv L s"
  by (rule kernel_inv_frame; simp add: set_reg_def take_trap_def exec_mret_def)+

lemma take_trap_sel [simp]:
  "SCHEDULER (take_trap c tv s) = SCHEDULER s" "tx_budget (take_trap c tv s) = tx_budget s"
  "mcause_csr (take_trap c tv s) = c" "mepc_csr (take_trap c tv s) = pc s" "gpr (take_trap c tv s) = gpr s"
  "mstatus_csr (take_trap c tv s) = entry_status (priv s) (mstatus_csr s)"
  by (simp_all add: take_trap_def tx_budget_def)

lemma exec_mret_sel [simp]:
  "SCHEDULER (exec_mret s) = SCHEDULER s" "pc (exec_mret s) = mepc_csr s" "gpr (exec_mret s) = gpr s"
  "priv (exec_mret s) = return_privilege (mstatus_csr s)"
  by (simp_all add: exec_mret_def)

text \<open>The task a fault switches to resumes with its saved context.\<close>

lemma kill_current_resumes:
  assumes inv: "sched_inv k" "sched_inv k'" and c: "current (SCHEDULER k) = Some c"
    and ret: "kill_current frame k = Return frame' k'"
    and j: "current (SCHEDULER k') = Some j" "j \<noteq> c"
  obtains t where "tasks (SCHEDULER k) ! j = Some t"
    "(frame', mepc_csr k', mstatus_csr k') = saved_view (task_context t)"
proof -
  obtain u where "j < MAX_TASKS" "tasks (SCHEDULER k') ! j = Some u" by (rule current_task [OF inv(2) j(1)])
  with kill_current_configs [OF inv(1) c ret, of j] obtain t where t: "j < MAX_TASKS" "tasks (SCHEDULER k) ! j = Some t"
    by (cases "tasks (SCHEDULER k) ! j") auto
  with kill_current_virtual [OF inv(1) c ret, of j] j c show ?thesis
    by (intro that [of t]) (simp_all add: virtual_context_def)
qed

text \<open>
  C8: The violating task is stopped. Its load from kernel text is denied, so it never reaches the
  instruction after it: through the access fault, the trap vector and the handler, the task is
  dead, and the hart continues with another task exactly where that task was interrupted, unless
  no task is ready or running any more. The kernel's invariant holds.
\<close>

theorem violation_task_killed:
  assumes L: "linker_ok L" "sym_user_text_start L < sym_user_text_end L" and inv: "kernel_inv L s"
    and user: "priv s = U_mode" and c: "current (SCHEDULER s) = Some c" and room: "288 \<le> tx_budget s"
  shows "\<exists>s'. user_violation_task leaves val addr s = Return () s' \<and> kernel_inv L s' \<and>
    (\<exists>t. tasks (SCHEDULER s') ! c = Some t \<and> task_state t = Dead) \<and>
    (current (SCHEDULER s') \<noteq> Some c \<or> (\<forall>j < MAX_TASKS. \<not> live_task (SCHEDULER s') j)) \<and>
    (\<forall>j. current (SCHEDULER s') = Some j \<longrightarrow> j \<noteq> c \<longrightarrow> (\<exists>t. tasks (SCHEDULER s) ! j = Some t \<and>
       gpr s' = regs_of_frame (frame_of (task_context t)) \<and> pc s' = mepc (task_context t) \<and>
       priv s' = return_privilege (mstatus (task_context t))))"
proof -
  let ?s = "set_reg addr 0x80000000 s"
  let ?k = "take_trap 5 0x80000000 ?s" and ?f = "frame_of_regs (gpr ?s)"
  have "kernel_entries L ?s" using inv by (simp add: kernel_inv_def kernel_entries_def set_reg_def entry_cfg_def entry_addr_def)
  from kernel_text_denied [OF L this] have "ld leaves val 0 addr ?s = enter_kernel leaves 5 0x80000000 ?s"
    by (simp add: ld_def upt_rec)
  then have "user_violation_task leaves val addr s = enter_kernel leaves 5 0x80000000 ?s"
    by (simp add: user_violation_task_def block_li block_single del: block.simps)
  moreover have "kernel_inv L ?k" "\<not> bit (mcause_csr ?k) 63" "take_bit 63 (mcause_csr ?k) \<in> {1, 5, 7}"
    "mpp_of (mstatus_csr ?k) = 0" "current (SCHEDULER ?k) = Some c" "288 \<le> tx_budget ?k"
    using inv user c room by (simp_all add: exception_small privilege_bits_def)
  then obtain vs tr f k' where run: "trap_handler ?f ?k = Return f k'" "kernel_inv L k'"
    "kill_current ?f (?k\<lparr>uart_in := vs, mmio_trace := mmio_trace ?k @ tr\<rparr>) = Return f k'"
    by (rule user_fault_returns)
  obtain m where "enter_kernel leaves 5 0x80000000 ?s =
      Return () (exec_mret (k'\<lparr>gpr := regs_of_frame f, mem := m, mscratch_csr := gpr ?s SP\<rparr>))" (is "_ = Return () ?s'")
    by (rule enter_kernel_run [OF run(1)])
  moreover let ?k1 = "?k\<lparr>uart_in := vs, mmio_trace := mmio_trace ?k @ tr\<rparr>"
  have pre: "sched_inv ?k1" "current (SCHEDULER ?k1) = Some c" and k': "sched_inv k'"
    using inv c run(2) by (simp_all add: kernel_inv_def)
  note kill_current_dead [OF pre run(3)]
  moreover have "\<exists>t. tasks (SCHEDULER s) ! j = Some t \<and> gpr ?s' = regs_of_frame (frame_of (task_context t)) \<and>
      pc ?s' = mepc (task_context t) \<and> priv ?s' = return_privilege (mstatus (task_context t))"
    if j: "current (SCHEDULER k') = Some j" "j \<noteq> c" for j
  proof -
    obtain t where "tasks (SCHEDULER ?k1) ! j = Some t" "(f, mepc_csr k', mstatus_csr k') = saved_view (task_context t)"
      by (rule kill_current_resumes [OF pre(1) k' pre(2) run(3) j])
    then show ?thesis by (simp add: saved_view_def)
  qed
  ultimately show ?thesis using run(2) by (intro exI [of _ ?s']) simp
qed

theorem violation_task_killed_witness:
  "\<forall>leaves. \<exists>s' t. user_violation_task leaves A0 A1 (example_cpu (example_kernel (replicate 288 0x20))) = Return () s' \<and>
     tasks (SCHEDULER s') ! 1 = Some t \<and> task_state t = Dead"
proof
  fix leaves :: "unit compiled"
  let ?k = "example_kernel (replicate 288 0x20)"
  have "kernel_inv linker_example (example_cpu ?k)" by (simp add: kernel_inv_example_cpu example_kernel_inv)
  moreover have "288 \<le> tx_budget (example_cpu ?k)" "current (SCHEDULER (example_cpu ?k)) = Some 1"
    "priv (example_cpu ?k) = U_mode"
    using example_budget [of 288] by (simp_all add: example_cpu_def kernel.defs tx_budget_def example_sched_def)
  moreover have "linker_ok linker_example" "sym_user_text_start linker_example < sym_user_text_end linker_example"
    by (simp_all add: linker_example_ok) (simp add: linker_example_def)
  ultimately show "\<exists>s' t. user_violation_task leaves A0 A1 (example_cpu ?k) = Return () s' \<and>
      tasks (SCHEDULER s') ! 1 = Some t \<and> task_state t = Dead"
    using violation_task_killed [of linker_example "example_cpu ?k" 1 leaves A0 A1] by auto
qed

end
