(* ===== verification/System.thy ===== *)
theory System
  imports User_Task
begin

text \<open>
  The whole system: a hart that has booted and then runs its programs, takes traps and is
  served by the kernel, and what holds in every state it can reach.

  Programs may do anything to their registers, their program counter and their own memory
  between two traps. The kernel's statics are kept apart from that memory: the PMP entries do
  not stop a user task from writing kernel data, so this separation is an assumption on the
  programs, and the results below are about programs that respect it.
\<close>

section \<open>Transition systems\<close>

inductive reach :: "('s \<Rightarrow> bool) \<Rightarrow> ('s \<Rightarrow> 's \<Rightarrow> bool) \<Rightarrow> 's \<Rightarrow> bool" for init step where
  start: "init s \<Longrightarrow> reach init step s"
| continue: "reach init step s \<Longrightarrow> step s s' \<Longrightarrow> reach init step s'"

locale safety_invariant =
  fixes init :: "'s \<Rightarrow> bool" and step :: "'s \<Rightarrow> 's \<Rightarrow> bool" and I :: "'s \<Rightarrow> bool"
  assumes initial: "init s \<Longrightarrow> I s"
    and closed: "I s \<Longrightarrow> step s s' \<Longrightarrow> I s'"
begin

lemma always: "reach init step s \<Longrightarrow> I s"
  by (induction rule: reach.induct) (auto intro: initial closed)

end

section \<open>The system\<close>

definition system_init :: "boot_env \<Rightarrow> cpu \<Rightarrow> bool" where
  "system_init E s \<longleftrightarrow> (\<exists>s0. pmp_reset s0 \<and> SCHEDULER s0 = SCHEDULER_init \<and> priv s0 = M_mode \<and>
     length (crlf (bytes boot_log)) < tx_budget s0 \<and> start_hart E 0 s0 = Return () s)"

inductive system_step :: "cpu \<Rightarrow> cpu \<Rightarrow> bool" where
  compute: "system_step s (s\<lparr>gpr := g, pc := p, mem := m\<rparr>)"
| device: "system_step s (s\<lparr>mtime := t, uart_in := vs\<rparr>)"
| trap: "enter_kernel leaves cause tval s = Return () s' \<Longrightarrow> system_step s s'"

inductive_cases system_stepE [consumes 1, case_names compute device trap]: "system_step s s'"

section \<open>Who a task is\<close>

text \<open>
  The privilege a task runs with and the regions it was given. For the current task the
  privilege is that of the hart, for another one the privilege its saved status returns to.
\<close>

definition identity :: "privilege \<Rightarrow> SchedulerState \<Rightarrow> nat \<Rightarrow> (privilege \<times> PmpRegion list) option" where
  "identity p st i = map_option (\<lambda>t.
     (if current st = Some i then p else return_privilege (mstatus (task_context t)),
      cfg_regions (pmp_config t))) (tasks st ! i)"

definition identities :: "(nat \<Rightarrow> (privilege \<times> PmpRegion list) option) \<Rightarrow> privilege \<Rightarrow> SchedulerState \<Rightarrow> bool" where
  "identities f p st \<longleftrightarrow> (\<forall>i < MAX_TASKS. identity p st i = f i) \<and> (current st = None \<longrightarrow> p = M_mode)"

text \<open>Inside the kernel the privilege of the interrupted program is in the status register.\<close>

definition guarded ::
  "linker_symbols \<Rightarrow> (nat \<Rightarrow> (privilege \<times> PmpRegion list) option) \<Rightarrow> 'a kernel_scheme \<Rightarrow> bool"
where
  "guarded L f k \<longleftrightarrow> kernel_inv L k \<and> identities f (return_privilege (mstatus_csr k)) (SCHEDULER k)"

definition running ::
  "linker_symbols \<Rightarrow> (nat \<Rightarrow> (privilege \<times> PmpRegion list) option) \<Rightarrow> 'a cpu_scheme \<Rightarrow> bool"
where
  "running L f s \<longleftrightarrow> kernel_inv L s \<and> identities f (priv s) (SCHEDULER s)"

lemma identity_cong:
  assumes "map_option pmp_config (tasks st' ! i) = map_option pmp_config (tasks st ! i)"
    and "tasks st ! i \<noteq> None \<Longrightarrow> virtual_context st' (fr', me', ms') i = virtual_context st (fr, me, ms) i"
  shows "identity (return_privilege ms') st' i = identity (return_privilege ms) st i"
  using assms
  by (cases "tasks st ! i"; cases "tasks st' ! i")
    (auto simp: identity_def virtual_context_def saved_view_def split: if_splits)

lemma schedule_current:
  assumes inv: "sched_inv k" and ret: "schedule frame k = Return frame' k'" and "current (SCHEDULER k') = None"
  shows "current (SCHEDULER k) = None" "mstatus_csr k' = mstatus_csr k"
proof -
  let ?st = "save_current frame (mepc_csr k) (mstatus_csr k) (SCHEDULER k)"
  have "select_next_ready MAX_TASKS (current (SCHEDULER k)) (is_ready ?st) = None"
    using schedule_table [OF inv ret] assms(3)
    by (cases "select_next_ready MAX_TASKS (current (SCHEDULER k)) (is_ready ?st)")
      (simp_all add: dispatch_def Let_def mark_running_def)
  from schedule_none [OF inv this] ret assms(3)
  show "current (SCHEDULER k) = None" "mstatus_csr k' = mstatus_csr k" by auto
qed

lemma preserves_guarded_schedule: "preserves (guarded L f) (schedule frame)"
  unfolding preserves_def
proof (intro allI impI)
  fix k :: "'a kernel_scheme" and frame' k'
  assume k: "guarded L f k" and ret: "schedule frame k = Return frame' k'"
  then have inv: "sched_inv k" by (simp add: guarded_def kernel_inv_def)
  have "identity (return_privilege (mstatus_csr k')) (SCHEDULER k') i =
      identity (return_privilege (mstatus_csr k)) (SCHEDULER k) i" if "i < MAX_TASKS" for i
    by (rule identity_cong [OF schedule_configs [OF inv ret that] schedule_virtual [OF inv ret that]])
  then show "guarded L f k'"
    using k schedule_kernel_inv [of L k frame frame' k'] schedule_current [OF inv ret] ret
    by (auto simp: guarded_def identities_def)
qed

lemma kill_current_none:
  assumes "current (SCHEDULER k) = None"
  shows "kill_current frame k = schedule frame k"
  using assms restore_MIE [of "mstatus_csr k" "mstatus_csr k"]
  by (auto simp: kill_current_def kill_locked_def then_comp_def bind_comp_def gets_def with_lock_eq skip_def ret_def
      intro: arg_cong [of _ _ "schedule frame"] kernel.equality)

lemma preserves_guarded_kill: "preserves (guarded L f) (kill_current frame)"
  unfolding preserves_def
proof (intro allI impI)
  fix k :: "'a kernel_scheme" and frame' k'
  assume k: "guarded L f k" and ret: "kill_current frame k = Return frame' k'"
  then have inv: "sched_inv k" by (simp add: guarded_def kernel_inv_def)
  show "guarded L f k'"
  proof (cases "current (SCHEDULER k)")
    case None
    then show ?thesis
      using ret preservesD [OF preserves_guarded_schedule k] by (simp add: kill_current_none)
  next
    case (Some c)
    have "identity (return_privilege (mstatus_csr k')) (SCHEDULER k') i =
        identity (return_privilege (mstatus_csr k)) (SCHEDULER k) i" if "i < MAX_TASKS" for i
      by (rule identity_cong [OF kill_current_configs [OF inv Some ret that] kill_current_virtual [OF inv Some ret that]])
    moreover have "current (SCHEDULER k') \<noteq> None"
    proof -
      obtain t k1 where "sched_inv k1" "schedule frame k1 = Return frame' k'"
        "SCHEDULER k1 = (SCHEDULER k)\<lparr>tasks := (tasks (SCHEDULER k))[c := Some (t\<lparr>task_state := Dead\<rparr>)]\<rparr>"
        by (rule kill_current_split [OF inv Some ret])
      with schedule_current(1) Some show ?thesis by fastforce
    qed
    moreover have "kernel_inv L k'"
      using k preservesD [OF preserves_kill_current _ ret] by (simp add: guarded_def)
    ultimately show ?thesis using k by (auto simp: guarded_def identities_def)
  qed
qed

interpretation guard: trap_property "guarded L f" for L f
proof
  fix k k' :: "'a kernel_scheme"
  assume "console_step k k'" "guarded L f k"
  then show "guarded L f k'" by (auto simp: console_step_def guarded_def)
qed (simp_all add: guarded_def preserves_guarded_schedule preserves_guarded_kill)

section \<open>The invariant of the system\<close>

lemma guarded_take_trap: "guarded L f (take_trap c v s) = running L f s"
  by (simp add: guarded_def running_def)

lemma running_mret: "running L f (exec_mret (s\<lparr>gpr := g, mem := m, mscratch_csr := w\<rparr>)) = guarded L f s"
  by (simp add: guarded_def running_def)

lemma running_trap:
  fixes s :: "'a cpu_scheme"
  assumes "running L f s" "enter_kernel leaves cause tval s = Return () s'"
  shows "running L f s'"
proof -
  let ?h = "trap_handler (frame_of_regs (gpr s)) (take_trap cause tval s)"
  have gpr: "gpr (take_trap cause tval s) = gpr s" by (simp add: take_trap_def)
  obtain fr k' where ret: "?h = Return fr k'"
    using assms(2) trap_vector_stops [of "take_trap cause tval s"] gpr
    by (cases ?h) (auto simp: enter_kernel_def Let_def)
  then obtain m where "enter_kernel leaves cause tval s =
      Return () (exec_mret (k'\<lparr>gpr := regs_of_frame fr, mem := m, mscratch_csr := gpr s SP\<rparr>))"
    by (rule enter_kernel_run)
  moreover have "guarded L f k'"
    using preservesD [OF guard.trap_handler_preserved _ ret] assms(1) by (simp add: guarded_take_trap)
  ultimately show ?thesis using assms(2) by (simp add: running_mret del: exec_mret_sel)
qed

lemma running_step:
  assumes "running L f s" "system_step s s'"
  shows "running L f s'"
  using assms(2)
proof (cases rule: system_stepE)
  case (compute g p m)
  then show ?thesis using assms(1) kernel_inv_frame [of s' s L] by (simp add: running_def)
next
  case (device t vs)
  then show ?thesis using assms(1) kernel_inv_frame [of s' s L] by (simp add: running_def)
next
  case (trap leaves cause tval)
  then show ?thesis using running_trap [OF assms(1)] by blast
qed

text \<open>The tasks the kernel boots with.\<close>

definition boot_identity :: "boot_env \<Rightarrow> nat \<Rightarrow> (privilege \<times> PmpRegion list) option" where
  "boot_identity E = identity M_mode (boot_sched E)"

lemma return_privilege_new:
  "return_privilege (mstatus (TaskContext_new_umode e p)) = U_mode"
  "return_privilege (mstatus (TaskContext_new_mmode e p)) = M_mode"
  by (simp_all add: return_privilege_def mpp_of_def TaskContext_new_umode_def TaskContext_new_mmode_def)

lemma boot_identity_tasks:
  defines "regions E n rs \<equiv>
    b_regions (built (user_regions (sym_user_text_start (symbols E), 0x1000) (stack_of (boot_heap E n)) rs))"
  shows "boot_identity E 0 = Some (M_mode, cfg_regions PmpConfig_empty)"
    "boot_identity E 1 = Some (U_mode, regions E 1 [(UART_BASE, 0x1000)])"
    "boot_identity E (Suc 0) = Some (U_mode, regions E (Suc 0) [(UART_BASE, 0x1000)])"
    "boot_identity E 2 = Some (U_mode, regions E 2 [])"
    "boot_identity E 3 = None"
  by (simp_all add: boot_identity_def identity_def boot_sched_def boot_table_def boot_tasks_def Let_def make_ready_def
      user_task_of_def machine_task_of_def return_privilege_new build_def regions_def)

lemma boot_identity_level:
  assumes "boot_identity E i = Some (p, regs)" "i < MAX_TASKS"
  shows "p = (if i = 0 then M_mode else U_mode)"
proof -
  have "i \<in> {0, 1, 2, 3}" using assms(2) by (auto simp: MAX_TASKS_def)
  with assms(1) show ?thesis by (auto simp: boot_identity_tasks)
qed

lemma system_init_table:
  assumes "linker_ok (symbols E)" "system_init E s"
  shows "kernel_inv (symbols E) s" "SCHEDULER s = boot_sched E" "priv s = M_mode"
proof -
  obtain s0 where s0: "pmp_reset s0" "SCHEDULER s0 = SCHEDULER_init" "priv s0 = M_mode"
    "length (crlf (bytes boot_log)) < tx_budget s0" "start_hart E 0 s0 = Return () s"
    using assms(2) by (auto simp: system_init_def)
  obtain s' where "start_hart E 0 s0 = Return () s'" "kernel_inv (symbols E) s'" "SCHEDULER s' = boot_sched E"
    "priv s' = priv s0"
    by (rule start_hart_run [OF assms(1) s0(1,2,4)])
  with s0(3,5) show "kernel_inv (symbols E) s" "SCHEDULER s = boot_sched E" "priv s = M_mode" by simp_all
qed

lemma system_init_running:
  "linker_ok (symbols E) \<Longrightarrow> system_init E s \<Longrightarrow> running (symbols E) (boot_identity E) s"
  by (simp add: system_init_table running_def identities_def boot_identity_def boot_sched_def)

interpretation sys: safety_invariant "system_init E" system_step
  "\<lambda>s. linker_ok (symbols E) \<longrightarrow> running (symbols E) (boot_identity E) s" for E
  by unfold_locales (auto intro: system_init_running running_step)

lemma running_level:
  assumes "running L (boot_identity E) s"
  shows "priv s = (case current (SCHEDULER s) of None \<Rightarrow> M_mode | Some i \<Rightarrow> if i = 0 then M_mode else U_mode)"
proof (cases "current (SCHEDULER s)")
  case None
  then show ?thesis using assms by (simp add: running_def identities_def)
next
  case (Some i)
  have "sched_inv s" using assms by (simp add: running_def kernel_inv_def)
  then obtain t where t: "i < MAX_TASKS" "tasks (SCHEDULER s) ! i = Some t" by (rule current_task [OF _ Some])
  then have "boot_identity E i = Some (priv s, cfg_regions (pmp_config t))"
    using assms Some by (auto simp: running_def identities_def identity_def)
  from boot_identity_level [OF this t(1)] Some show ?thesis by simp
qed

section \<open>What the user tasks may reach\<close>

lemma boot_heap_range:
  assumes "linker_ok (symbols E)" "n \<le> 3"
  shows "heap_end (boot_heap E n) = sym_eheap (symbols E) \<and>
    unat (sym_sheap (symbols E)) \<le> unat (next_ptr (boot_heap E n))"
  using assms(2)
proof (induction n)
  case 0
  show ?case using linker_heap(5) [OF assms(1)] by (simp add: boot_heap_def heap_after_test_def)
next
  case (Suc n)
  let ?a = "boot_heap E n"
  have "4 - n = Suc (3 - n)" using Suc.prems by simp
  with boot_roomy [OF assms(1), of n] Suc.prems have "roomy (Suc (3 - n)) ?a" by simp
  note p = stack_of_props [OF roomy_stack(1,2) [OF this]]
  have "unat (stack_of ?a + 8192) = unat (stack_of ?a) + 8192"
    using p(4) linker_heap(3) [OF assms(1)] Suc by (simp add: unat_word_ariths(1))
  with p Suc show ?case by (simp add: boot_heap_def after_stack_def)
qed

lemma boot_stack_range:
  assumes "linker_ok (symbols E)" "n < 3"
  shows "unat (sym_sheap (symbols E)) \<le> unat (stack_of (boot_heap E n))"
    "unat (stack_of (boot_heap E n)) + 8192 \<le> unat (sym_eheap (symbols E))"
proof -
  have "4 - n = Suc (3 - n)" using assms(2) by simp
  with boot_roomy [OF assms(1), of n] assms(2) have "roomy (Suc (3 - n)) (boot_heap E n)" by simp
  note p = stack_of_props [OF roomy_stack(1,2) [OF this]]
  show "unat (sym_sheap (symbols E)) \<le> unat (stack_of (boot_heap E n))"
    "unat (stack_of (boot_heap E n)) + 8192 \<le> unat (sym_eheap (symbols E))"
    using p(3,4) boot_heap_range [OF assms(1), of n] assms(2) by simp_all
qed

lemma task_permits_region:
  assumes "task_permits (b_regions (built rs)) acc a"
  obtains r where "r \<in> set rs" "in_region r a"
proof -
  obtain i where i: "in_region (region_at (b_regions (built rs)) i) a"
    using assms by (auto simp: task_permits_def find_Some_iff split: option.splits simp del: upt_rec_numeral)
  then have "region_at (b_regions (built rs)) i \<in> set (b_regions (built rs)) \<and>
      region_size (region_at (b_regions (built rs)) i) \<noteq> 0"
    by (auto simp: region_at_def in_region_def PmpRegion_new_def)
  then show ?thesis using i
    by (intro that [of "region_at (b_regions (built rs)) i"]) (auto simp: built_def null_region_def PmpRegion_new_def)
qed

lemma user_region_inside:
  assumes L: "linker_ok L" and p: "unat (sym_sheap L) \<le> unat p" "unat p + 8192 \<le> unat (sym_eheap L)"
    and regs: "regs = [] \<or> regs = [(UART_BASE, 0x1000)]"
    and r: "r \<in> set (user_regions (sym_user_text_start L, 0x1000) p regs)" "in_region r a"
  shows "in_text L a \<or> in_data L a \<or> in_uart a"
proof -
  consider "unat (sym_user_text_start L) \<le> unat a" "unat a < unat (sym_user_text_start L) + 4096"
    | "unat p \<le> unat a" "unat a < unat p + 8192"
    | "0x10000000 \<le> unat a" "unat a < 0x10001000"
    using r regs by (auto simp: user_regions_def in_region_def PmpRegion_new_def UART_BASE_def)
  then show ?thesis
    using L p by cases (auto simp: linker_ok_def in_text_def in_data_def in_uart_def word_le_nat_alt word_less_nat_alt)
qed

lemma boot_identity_user:
  assumes "boot_identity E i = Some (U_mode, rs)" "i < MAX_TASKS"
  obtains n regs where "n < 3" "regs = [] \<or> regs = [(UART_BASE, 0x1000)]"
    "rs = b_regions (built (user_regions (sym_user_text_start (symbols E), 0x1000) (stack_of (boot_heap E n)) regs))"
proof -
  have "i \<noteq> 0" using boot_identity_level [OF assms] by (auto split: if_splits)
  then consider "i = 1" | "i = 2" | "i = 3" using assms(2) unfolding MAX_TASKS_def by linarith
  then show ?thesis
  proof cases
    case 1
    then show ?thesis using assms(1)
      by (intro that [of 1 "[(UART_BASE, 0x1000)]"]) (simp_all add: boot_identity_tasks)
  next
    case 2
    then show ?thesis using assms(1) by (intro that [of 2 "[]"]) (simp_all add: boot_identity_tasks)
  next
    case 3
    then show ?thesis using assms(1) by (simp add: boot_identity_tasks)
  qed
qed

text \<open>
  C5: The system as a whole keeps its invariant: in every state reachable from the entry point
  by running programs, device activity and traps of any kind, the task table is consistent, the
  kernel's PMP entries and those of the current task are in place, and nobody has gained
  privilege: the hart is in machine mode only in the boot code and in the idle task, and in user
  mode whenever one of the user tasks is current.
\<close>

theorem system_invariant:
  assumes "linker_ok (symbols E)" "reach (system_init E) system_step s"
  shows "kernel_inv (symbols E) s \<and>
    priv s = (case current (SCHEDULER s) of None \<Rightarrow> M_mode | Some i \<Rightarrow> if i = 0 then M_mode else U_mode)"
proof -
  have "running (symbols E) (boot_identity E) s" using sys.always [OF assms(2)] assms(1) by blast
  then show ?thesis using running_level [of "symbols E" E s] by (simp add: running_def)
qed

lemma system_boots:
  assumes "linker_ok (symbols E)"
  obtains s where "reach (system_init E) system_step s" "SCHEDULER s = boot_sched E" "kernel_inv (symbols E) s"
proof -
  obtain s where s: "start_hart E 0 (reset_cpu (\<lambda>_. 0)) = Return () s" "kernel_inv (symbols E) s" "SCHEDULER s = boot_sched E"
    by (rule start_hart_run [OF assms reset_cpu_ok(1-3)])
  then have "system_init E s" using reset_cpu_ok [of "\<lambda>_. 0"] unfolding system_init_def by blast
  then show ?thesis using s by (intro that [of s] reach.start)
qed

theorem system_invariant_witness:
  "\<exists>s. reach (system_init example_env) system_step s \<and> kernel_inv linker_example s \<and> priv s = M_mode"
proof -
  have L: "linker_ok (symbols example_env)" by (simp add: example_env_def linker_example_ok)
  obtain s where s: "reach (system_init example_env) system_step s" "SCHEDULER s = boot_sched example_env"
    by (rule system_boots [OF L])
  then show ?thesis using system_invariant [OF L s(1)] by (auto simp: example_env_def boot_sched_def)
qed

text \<open>
  C4: What user code can reach, at any time after boot. In every reachable state in user mode the
  hart allows exactly instruction fetches in the text section, and loads and stores from its
  end to the end of the heap and in the UART page. Everything else is denied: no user task ever
  reads or writes code, the interrupt controller, another device or memory beyond the heap.
\<close>

theorem user_mode_confined:
  assumes "linker_ok (symbols E)" "reach (system_init E) system_step s" "priv s = U_mode"
  shows "hart_allows s U_mode acc a \<longleftrightarrow>
    (if in_text (symbols E) a then acc = AccExec
     else (in_data (symbols E) a \<or> in_uart a) \<and> acc \<noteq> AccExec)"
proof -
  have run: "running (symbols E) (boot_identity E) s" using sys.always [OF assms(2)] assms(1) by blast
  then obtain i where i: "current (SCHEDULER s) = Some i"
    using running_level [OF run] assms(3) by (auto split: option.splits)
  have inv: "kernel_inv (symbols E) s" using run by (simp add: running_def)
  then have "sched_inv s" by (simp add: kernel_inv_def)
  then obtain t where t: "i < MAX_TASKS" "tasks (SCHEDULER s) ! i = Some t" by (rule current_task [OF _ i])
  have "boot_identity E i = Some (U_mode, cfg_regions (pmp_config t))"
    using run t i assms(3) by (auto simp: running_def identities_def identity_def)
  then obtain n regs where n: "n < 3" "regs = [] \<or> regs = [(UART_BASE, 0x1000)]" "cfg_regions (pmp_config t) =
      b_regions (built (user_regions (sym_user_text_start (symbols E), 0x1000) (stack_of (boot_heap E n)) regs))"
    by (rule boot_identity_user [OF _ t(1)])
  have "in_text (symbols E) a \<or> in_data (symbols E) a \<or> in_uart a"
    if "task_permits (cfg_regions (pmp_config t)) acc a"
    using task_permits_region [OF that [unfolded n(3)]]
      user_region_inside [OF assms(1) boot_stack_range [OF assms(1) n(1)] n(2)] by metis
  with current_access [OF assms(1) inv i t(2), of U_mode acc a] show ?thesis by auto
qed

text \<open>The first timer interrupt starts the echo task.\<close>

lemma boot_select: "select_next_ready MAX_TASKS None (is_ready (boot_sched E)) = Some 1"
proof -
  have "[0..<MAX_TASKS] = [0, 1, 2, 3]" "MAX_TASKS = 4" by (simp_all add: MAX_TASKS_def upt_rec)
  then show ?thesis
    by (simp add: select_next_ready_def scan_start_def IDLE_TASK_INDEX_def is_ready_def boot_sched_def
        boot_table_def boot_tasks_def Let_def make_ready_def user_task_of_def machine_task_of_def)
qed

lemma first_tick:
  fixes s :: cpu
  assumes inv: "kernel_inv L s" and boot: "SCHEDULER s = boot_sched E" and room: "128 \<le> tx_budget s"
  obtains s' where "enter_kernel leaves (interrupt_cause 7) 0 s = Return () s'" "current (SCHEDULER s') = Some 1"
proof -
  let ?k = "take_trap (interrupt_cause 7) 0 s" and ?f = "frame_of_regs (gpr s)"
  have "mcause_csr ?k = interrupt_cause 7" "128 \<le> tx_budget ?k" using room by simp_all
  then obtain vs tr where run: "trap_handler ?f ?k = schedule ?f (?k\<lparr>TICK_COUNT := \<lparr>inner = inner (TICK_COUNT ?k) + 1\<rparr>,
      uart_in := vs, mtimecmp := mtime ?k + 100000, mmio_trace := mmio_trace ?k @ tr\<rparr>)" "29 \<le> tx_ready vs"
    by (rule timer_trap_run)
  let ?k1 = "?k\<lparr>TICK_COUNT := \<lparr>inner = inner (TICK_COUNT ?k) + 1\<rparr>,
      uart_in := vs, mtimecmp := mtime ?k + 100000, mmio_trace := mmio_trace ?k @ tr\<rparr>"
  have "kernel_inv L ?k1" using inv by simp
  then have sched: "sched_inv ?k1" and pmp: "length (pmpaddr_csr ?k1) = 16" "task_entries_unlocked ?k1"
    by (simp_all only: kernel_inv_def kernel_entries_def)
  have "29 \<le> tx_budget ?k1" using run(2) by (simp add: tx_budget_def)
  then obtain f k' where ret: "schedule ?f ?k1 = Return f k'" by (rule schedule_returns [OF sched pmp])
  obtain m where "enter_kernel leaves (interrupt_cause 7) 0 s =
      Return () (exec_mret (k'\<lparr>gpr := regs_of_frame f, mem := m, mscratch_csr := gpr s SP\<rparr>))" (is "_ = Return () ?s'")
    by (rule enter_kernel_run) (use run(1) ret in simp)
  moreover have "current (boot_sched E) = None" by (simp add: boot_sched_def)
  then have "current (SCHEDULER k') = Some 1"
    using schedule_table [OF sched ret] boot boot_select [of E]
    by (simp add: dispatch_def Let_def save_current_def mark_running_def)
  ultimately show ?thesis by (intro that [of ?s']) simp_all
qed

lemma system_ticks:
  assumes "linker_ok (symbols E)"
  obtains s s' where "reach (system_init E) system_step s" "SCHEDULER s = boot_sched E"
    "enter_kernel leaves (interrupt_cause 7) 0 s = Return () s'" "current (SCHEDULER s') = Some 1"
proof -
  obtain s where s: "reach (system_init E) system_step s" "SCHEDULER s = boot_sched E" "kernel_inv (symbols E) s"
    by (rule system_boots [OF assms])
  let ?s = "s\<lparr>mtime := 0, uart_in := replicate 128 0x20\<rparr>"
  have r: "reach (system_init E) system_step ?s" using s(1) system_step.device by (rule reach.continue)
  have inv: "kernel_inv (symbols E) ?s" and boot: "SCHEDULER ?s = boot_sched E" and "128 \<le> tx_budget ?s"
    using s example_budget [of 128] by (simp_all add: tx_budget_def)
  then obtain s' where "enter_kernel leaves (interrupt_cause 7) 0 ?s = Return () s'" "current (SCHEDULER s') = Some 1"
    by (rule first_tick)
  then show ?thesis by (rule that [OF r boot])
qed

theorem user_mode_confined_witness:
  "\<exists>s. reach (system_init example_env) system_step s \<and> priv s = U_mode \<and>
     \<not> hart_allows s U_mode AccRead 0x02004000 \<and> hart_allows s U_mode AccExec 0x80008000"
proof -
  have L: "linker_ok (symbols example_env)" by (simp add: example_env_def linker_example_ok)
  obtain s s' where s: "reach (system_init example_env) system_step s" "SCHEDULER s = boot_sched example_env"
    and s': "enter_kernel (\<lambda>_. (\<lambda>_. 0, \<lambda>_. 0)) (interrupt_cause 7) 0 s = Return () s'" "current (SCHEDULER s') = Some 1"
    by (rule system_ticks [OF L])
  have r: "reach (system_init example_env) system_step s'" using s(1) system_step.trap [OF s'(1)] by (rule reach.continue)
  have "running (symbols example_env) (boot_identity example_env) s'" using sys.always [OF r] L by blast
  then have u: "priv s' = U_mode" using running_level [of "symbols example_env" example_env s'] s'(2) by simp
  have "\<not> in_text linker_example 0x02004000" "\<not> in_data linker_example 0x02004000" "\<not> in_uart 0x02004000"
    "in_text linker_example 0x80008000"
    by (simp_all add: in_text_def in_data_def in_uart_def linker_example_def)
  then show ?thesis
    using user_mode_confined [OF L r u, of AccRead "0x02004000"] user_mode_confined [OF L r u, of AccExec "0x80008000"] r u
    by (auto simp: example_env_def)
qed

section \<open>Transparency\<close>

lemma quiet_interrupt_run:
  assumes "unat c < 2 ^ 63" "c \<noteq> 7" "mcause_csr k = interrupt_cause c" "128 \<le> tx_budget k"
  obtains k' where "trap_handler frame k = Return frame k'" "console_step k k'"
proof -
  obtain args where run: "trap_handler frame k = then_comp (println args) (ret frame) k"
    and len: "length (concat args) \<le> 60"
    using assms(2,3) interrupt_decode [OF assms(1)] length_fmt(2) [of c]
    by (cases "c = 11"; cases "c = 3") (auto simp: trap_handler_run handle_interrupt_def)
  have "2 * (length (concat args) + 1) \<le> tx_budget k" using len assms(4) by simp
  then obtain k' where "println args k = Return () k'" "console_step k k'" by (rule println_returns)
  then show ?thesis using run by (intro that [of k']) (simp_all add: then_comp_def bind_comp_def ret_def)
qed

text \<open>
  C11: Interrupts other than the timer's are transparent: whatever program is interrupted, in
  whatever mode, it resumes with every register, the program counter, the privilege and the
  interrupt enable as they were, after the trap vector has saved and restored them and the
  handler has written its message.
\<close>

theorem interrupt_transparent:
  fixes s :: "'a cpu_scheme"
  assumes "unat c < 2 ^ 63" "c \<noteq> 7" "128 \<le> tx_budget s"
  shows "\<exists>s'. enter_kernel leaves (interrupt_cause c) tval s = Return () s' \<and>
    gpr s' = gpr s \<and> pc s' = pc s \<and> priv s' = priv s \<and> bit (mstatus_csr s') 3 = bit (mstatus_csr s) 3 \<and>
    SCHEDULER s' = SCHEDULER s \<and> kernel_inv L s' = kernel_inv L s"
proof -
  let ?k = "take_trap (interrupt_cause c) tval s" and ?f = "frame_of_regs (gpr s)"
  have "mcause_csr ?k = interrupt_cause c" "128 \<le> tx_budget ?k" using assms(3) by simp_all
  then obtain k' where k': "trap_handler ?f ?k = Return ?f k'" "console_step ?k k'"
    by (rule quiet_interrupt_run [OF assms(1,2)])
  obtain m where run: "enter_kernel leaves (interrupt_cause c) tval s =
      Return () (exec_mret (k'\<lparr>gpr := regs_of_frame ?f, mem := m, mscratch_csr := gpr s SP\<rparr>))"
    by (rule enter_kernel_run [OF k'(1)])
  obtain vs tr where "k' = ?k\<lparr>uart_in := vs, mmio_trace := mmio_trace ?k @ tr\<rparr>"
    using k'(2) by (auto simp: console_step_def)
  with run show ?thesis
    by (simp add: return_entry_MIE) (simp add: exec_mret_def return_entry_MIE)
qed

theorem interrupt_transparent_witness:
  "\<forall>leaves. \<exists>s'. enter_kernel leaves (interrupt_cause 11) 0 (example_cpu (example_kernel (replicate 128 0x20))) = Return () s' \<and>
     pc s' = 0x80008000 \<and> priv s' = U_mode"
proof
  fix leaves :: "unit compiled"
  let ?s = "example_cpu (example_kernel (replicate 128 0x20))"
  have "128 \<le> tx_budget ?s" "pc ?s = 0x80008000" "priv ?s = U_mode"
    using example_budget [of 128] by (simp_all add: example_cpu_def kernel.defs tx_budget_def)
  then show "\<exists>s'. enter_kernel leaves (interrupt_cause 11) 0 ?s = Return () s' \<and> pc s' = 0x80008000 \<and> priv s' = U_mode"
    using interrupt_transparent [of 11 ?s leaves 0] by auto
qed

end
