(* ===== verification/Virtual_Machines.thy ===== *)
theory Virtual_Machines
  imports System
begin

text \<open>
  What the kernel promises its tasks, as an abstract machine, and that the system implements it.

  Abstractly every task has a processor of its own: its registers, program counter, privilege
  level and regions, and whether it is still alive. One task at a time makes progress. Saved
  contexts, trap frames, the PMP and the console are not visible there. The abstraction
  function takes the context of the current task from the hart and that of every other task from
  the table of \<open>crates/kernel/src/sched/scheduler.rs\<close>.
\<close>

section \<open>The abstract machine\<close>

record vtask =
  v_regs :: TrapFrame
  v_pc :: u64
  v_level :: privilege
  v_regions :: "PmpRegion list"
  v_alive :: bool

record vsystem =
  v_tasks :: "nat \<Rightarrow> vtask option"
  v_current :: "nat option"

definition v_live :: "vsystem \<Rightarrow> nat \<Rightarrow> bool" where
  "v_live A j = (case v_tasks A j of None \<Rightarrow> False | Some t \<Rightarrow> v_alive t)"

text \<open>The choice of the next task: one that is alive, and nothing changes when there is none.\<close>

definition v_choice :: "vsystem \<Rightarrow> nat option \<Rightarrow> bool" where
  "v_choice A n \<longleftrightarrow> (\<exists>j. n = Some j \<and> v_live A j) \<or> n = v_current A \<and> (\<forall>i. \<not> v_live A i)"

text \<open>What a trap is about, by its cause, and the ways it can end, seen from the tasks.\<close>

datatype trap_kind = Tick | Interrupt | Fault | Call | Step_over | Fatal

definition kind_of :: "u64 \<Rightarrow> trap_kind" where
  "kind_of cause = (let c = take_bit 63 cause in
     if bit cause 63 then if c = 7 then Tick else Interrupt
     else if c \<in> {1, 5, 7} then Fault
     else if c = 8 then Call
     else if c \<in> {3, 9, 11} then Step_over
     else Fatal)"

definition v_served :: "u8 \<Rightarrow> TrapFrame \<Rightarrow> TrapFrame" where
  "v_served b r = (if a7 r = SYS_GETC then r\<lparr>a0 := ucast b\<rparr> else r)"

inductive vm_trap :: "trap_kind \<Rightarrow> vsystem \<Rightarrow> vsystem \<Rightarrow> bool" where
  resume: "vm_trap Interrupt A A"
| preempt: "v_choice A n \<Longrightarrow> vm_trap Tick A (A\<lparr>v_current := n\<rparr>)"
| kill: "v_current A = Some c \<Longrightarrow> v_tasks A c = Some t \<Longrightarrow> v_level t = U_mode \<Longrightarrow>
    B = A\<lparr>v_tasks := (v_tasks A)(c \<mapsto> t\<lparr>v_alive := False\<rparr>)\<rparr> \<Longrightarrow> v_choice B n \<Longrightarrow>
    vm_trap Fault A (B\<lparr>v_current := n\<rparr>)"
| serve: "v_current A = Some c \<Longrightarrow> v_tasks A c = Some t \<Longrightarrow>
    vm_trap Call A (A\<lparr>v_tasks := (v_tasks A)(c \<mapsto> t\<lparr>v_regs := v_served b (v_regs t), v_pc := v_pc t + 4\<rparr>)\<rparr>)"
| advance: "v_current A = Some c \<Longrightarrow> v_tasks A c = Some t \<Longrightarrow>
    vm_trap Step_over A (A\<lparr>v_tasks := (v_tasks A)(c \<mapsto> t\<lparr>v_pc := v_pc t + 4\<rparr>)\<rparr>)"
| boot_code: "v_current A = None \<Longrightarrow> kind = Call \<or> kind = Step_over \<Longrightarrow> vm_trap kind A A"

inductive vm_step :: "vsystem \<Rightarrow> vsystem \<Rightarrow> bool" where
  run: "v_current A = Some c \<Longrightarrow> v_tasks A c = Some t \<Longrightarrow>
    vm_step A (A\<lparr>v_tasks := (v_tasks A)(c \<mapsto> t\<lparr>v_regs := r, v_pc := p\<rparr>)\<rparr>)"
| idle: "vm_step A A"
| trap: "vm_trap kind A B \<Longrightarrow> vm_step A B"

inductive_cases vm_trapE: "vm_trap kind A B"
inductive_cases vm_stepE: "vm_step A B"

section \<open>The abstraction\<close>

definition alive :: "Task \<Rightarrow> bool" where
  "alive t \<longleftrightarrow> task_state t = Ready \<or> task_state t = Running"

definition vm_of :: "SchedulerState \<Rightarrow> TrapFrame \<Rightarrow> u64 \<Rightarrow> privilege \<Rightarrow> vsystem" where
  "vm_of st frame me p = \<lparr>
     v_tasks = (\<lambda>i. if i < MAX_TASKS
       then map_option (\<lambda>t.
         (let c = task_context t;
              (fr, pc, lv) = (if current st = Some i then (frame, me, p)
                              else (frame_of c, mepc c, return_privilege (mstatus c)))
          in \<lparr>v_regs = fr, v_pc = pc, v_level = lv, v_regions = cfg_regions (pmp_config t), v_alive = alive t\<rparr>))
         (tasks st ! i)
       else None),
     v_current = current st\<rparr>"

definition vms :: "'a cpu_scheme \<Rightarrow> vsystem" where
  "vms s = vm_of (SCHEDULER s) (frame_of_regs (gpr s)) (pc s) (priv s)"

text \<open>Inside the kernel: the interrupted program's context is the trap frame and the trap registers.\<close>

definition kvms :: "TrapFrame \<Rightarrow> 'a kernel_scheme \<Rightarrow> vsystem" where
  "kvms frame k = vm_of (SCHEDULER k) frame (mepc_csr k) (return_privilege (mstatus_csr k))"

lemma vm_of_current [simp]: "v_current (vm_of st fr me p) = current st"
  by (simp add: vm_of_def)

lemma v_live_vm_of: "v_live (vm_of st fr me p) j \<longleftrightarrow> j < MAX_TASKS \<and> live_task st j"
  by (simp add: v_live_def vm_of_def Let_def live_task_def alive_def split: option.splits prod.splits)

text \<open>Two tables show the same tasks when contexts, regions and states agree.\<close>

lemma vm_of_cong:
  assumes "\<And>i. i < MAX_TASKS \<Longrightarrow> map_option pmp_config (tasks st' ! i) = map_option pmp_config (tasks st ! i)"
    and "\<And>i. i < MAX_TASKS \<Longrightarrow> map_option alive (tasks st' ! i) = map_option alive (tasks st ! i)"
    and "\<And>i. i < MAX_TASKS \<Longrightarrow> tasks st ! i \<noteq> None \<Longrightarrow>
      virtual_context st' (fr', me', ms') i = virtual_context st (fr, me, ms) i"
  shows "vm_of st' fr' me' (return_privilege ms') =
    (vm_of st fr me (return_privilege ms))\<lparr>v_current := current st'\<rparr>"
proof -
  have "v_tasks (vm_of st' fr' me' (return_privilege ms')) i = v_tasks (vm_of st fr me (return_privilege ms)) i" for i
    using assms [of i]
    by (cases "tasks st ! i"; cases "tasks st' ! i")
      (auto simp: vm_of_def virtual_context_def saved_view_def Let_def split: if_splits)
  then show ?thesis by (auto simp: vm_of_def intro!: vsystem.equality)
qed

section \<open>The kernel's operations\<close>

lemma schedule_choice:
  assumes inv: "sched_inv k" and ret: "schedule frame k = Return frame' k'"
  shows "v_choice (kvms frame k) (current (SCHEDULER k'))"
  using inv
proof (cases rule: rr.dispatch_cases [of _ frame "mepc_csr k" "mstatus_csr k"])
  case none
  then have "\<forall>j < MAX_TASKS. \<not> live_task (SCHEDULER k) j" using rr.ready_after_save [OF inv] by simp
  moreover have "current (SCHEDULER k') = current (SCHEDULER k)" using none schedule_table [OF inv ret] by simp
  ultimately show ?thesis by (auto simp: v_choice_def kvms_def v_live_vm_of split: option.splits)
next
  case (switch j t)
  then show ?thesis
    using rr.ready_after_save [OF inv switch(1)] schedule_table [OF inv ret]
    by (simp add: v_choice_def kvms_def v_live_vm_of)
qed

lemma schedule_refines:
  assumes inv: "sched_inv k" and ret: "schedule frame k = Return frame' k'"
  shows "kvms frame' k' = (kvms frame k)\<lparr>v_current := current (SCHEDULER k')\<rparr>"
  unfolding kvms_def
proof (rule vm_of_cong)
  show "map_option alive (tasks (SCHEDULER k') ! i) = map_option alive (tasks (SCHEDULER k) ! i)"
    if "i < MAX_TASKS" for i
    by (rule schedule_attribute [OF _ _ inv ret that]) (auto simp: alive_def save_task_def)
qed (rule schedule_configs [OF inv ret] schedule_virtual [OF inv ret]; assumption)+

lemma schedule_vm_trap:
  "sched_inv k \<Longrightarrow> schedule frame k = Return frame' k' \<Longrightarrow> vm_trap Tick (kvms frame k) (kvms frame' k')"
  using vm_trap.preempt [OF schedule_choice] by (simp add: schedule_refines)

lemma kill_current_vm_trap:
  assumes inv: "sched_inv k" and c: "current (SCHEDULER k) = Some c"
    and level: "return_privilege (mstatus_csr k) = U_mode" and ret: "kill_current frame k = Return frame' k'"
  shows "vm_trap Fault (kvms frame k) (kvms frame' k')"
proof -
  obtain t k1 where k1: "c < MAX_TASKS" "tasks (SCHEDULER k) ! c = Some t" "sched_inv k1"
    "schedule frame k1 = Return frame' k'"
    "SCHEDULER k1 = (SCHEDULER k)\<lparr>tasks := (tasks (SCHEDULER k))[c := Some (t\<lparr>task_state := Dead\<rparr>)]\<rparr>"
    "mepc_csr k1 = mepc_csr k" "mstatus_csr k1 = mstatus_csr k"
    by (rule kill_current_split [OF inv c ret])
  obtain u where u: "v_tasks (kvms frame k) c = Some u" "v_level u = U_mode"
    using k1(1,2) c level by (simp add: kvms_def vm_of_def Let_def)
  have "kvms frame k1 = (kvms frame k)\<lparr>v_tasks := (v_tasks (kvms frame k))(c \<mapsto> u\<lparr>v_alive := False\<rparr>)\<rparr>"
    using u k1 c sched_okD(1) [OF inv]
    by (auto simp: kvms_def vm_of_def Let_def alive_def fun_eq_iff nth_list_update intro!: vsystem.equality)
  moreover have "v_current (kvms frame k) = Some c" using c by (simp add: kvms_def)
  ultimately show ?thesis
    using vm_trap.kill [OF _ u _ schedule_choice [OF k1(3,4)]] schedule_refines [OF k1(3,4)] by simp
qed

text \<open>What the handlers leave alone on their way to the scheduler or back to the program.\<close>

definition kept :: "'a kernel_scheme \<Rightarrow> 'a kernel_scheme \<Rightarrow> bool" where
  "kept k k' \<longleftrightarrow> SCHEDULER k' = SCHEDULER k \<and> mepc_csr k' = mepc_csr k \<and> mstatus_csr k' = mstatus_csr k"

lemma kept_console:
  assumes "console_only m" "m k = Return a k'"
  shows "kept k k'"
  using assms(1) [unfolded console_only_def, rule_format, of k] assms(2)
  by (auto simp: console_step_def kept_def)

lemma kept_trans: "kept k k1 \<Longrightarrow> kept k1 k2 \<Longrightarrow> kept k k2"
  by (simp add: kept_def)

lemma kept_timer:
  "increment_tick k = Return a k' \<Longrightarrow> kept k k'"
  "get_tick_count k = Return n k' \<Longrightarrow> kept k k'"
  "schedule_next_tick k = Return a k' \<Longrightarrow> kept k k'"
  by (auto simp: kept_def tick_runs schedule_next_tick_run)

lemmas kept_println = kept_console [OF console_println]

lemma tick_returns:
  assumes "handle_interrupt 7 frame k = Return frame' k'"
  obtains k1 where "kept k k1" "schedule frame k1 = Return frame' k'"
proof -
  from assms obtain a k1 n k2 b k3 c k4 where ret: "increment_tick k = Return a k1" "get_tick_count k1 = Return n k2"
    "(if n mod 100 = 0 then println [''[timer] tick '', fmt_dec n] else skip) k2 = Return b k3"
    "schedule_next_tick k3 = Return c k4" "schedule frame k4 = Return frame' k'"
    by (auto simp: handle_interrupt_def elim!: then_returnE bind_returnE)
  have "kept k2 k3" using ret(3) kept_println by (auto simp: skip_run kept_def split: if_splits)
  then have "kept k k4" using kept_timer(1) [OF ret(1)] kept_timer(2) [OF ret(2)] kept_timer(3) [OF ret(4)]
    by (auto simp: kept_def)
  then show ?thesis using ret(5) by (rule that)
qed

lemma other_interrupt_returns:
  "handle_interrupt c frame k = Return frame' k' \<Longrightarrow> c \<noteq> 7 \<Longrightarrow> frame' = frame \<and> kept k k'"
  by (auto simp: handle_interrupt_def ret_def split: if_splits elim!: then_returnE dest: kept_println)

lemma access_fault_returns:
  assumes "handle_access_fault name me mt frame k = Return frame' k'"
  obtains k1 where "mpp_of (mstatus_csr k) = 0" "kept k k1" "kill_current frame k1 = Return frame' k'"
  using assms
  by (auto simp: handle_access_fault_def read_mpp_def csr_read_runs panic_exception_def panic_at_def
      split: if_splits elim!: then_returnE bind_returnE) (metis kept_println)

lemma handle_syscall_returns:
  assumes "handle_syscall frame k = Return frame' k'"
  obtains b where "frame' = v_served b frame" "kept k k'"
proof -
  have "kept k k' \<and> (\<exists>b. frame' = v_served b frame)"
    using assms
    by (auto simp: handle_syscall_def v_served_def ret_def split: if_splits option.splits elim!: then_returnE bind_returnE
        dest: kept_println kept_console [OF console_putc] kept_console [OF console_try_getc])
  then show ?thesis using that by blast
qed

text \<open>The ways an exception returns to the program.\<close>

lemma mepc_returns:
  assumes "then_comp (write_mepc v) (ret frame) k1 = Return frame' k'" "kept k k1"
  shows "frame' = frame" "SCHEDULER k' = SCHEDULER k" "mstatus_csr k' = mstatus_csr k" "mepc_csr k' = v"
  using assms by (auto simp: write_mepc_def csr_write_runs ret_def kept_def elim!: then_returnE)

lemma step_over_returns:
  assumes "then_comp (println args) (then_comp (write_mepc v) (ret frame)) k = Return frame' k'"
  shows "frame' = frame" "SCHEDULER k' = SCHEDULER k" "mstatus_csr k' = mstatus_csr k" "mepc_csr k' = v"
  using assms by (auto elim!: then_returnE [of "println args"] dest: kept_println mepc_returns)

lemma then_panic_at: "then_comp m (panic_at f l msg) k \<noteq> Return a k'"
  by (auto simp: panic_at_def elim!: then_returnE)

lemma exception_returns:
  assumes "handle_exception c me mt frame k = Return frame' k'"
  obtains (fault) k1 where "c \<in> {1, 5, 7}" "mpp_of (mstatus_csr k) = 0" "kept k k1" "kill_current frame k1 = Return frame' k'"
    | (call) b where "c = 8" "frame' = v_served b frame" "SCHEDULER k' = SCHEDULER k"
        "mstatus_csr k' = mstatus_csr k" "mepc_csr k' = me + 4"
    | (step_over) "c \<in> {3, 9, 11}" "frame' = frame" "SCHEDULER k' = SCHEDULER k"
        "mstatus_csr k' = mstatus_csr k" "mepc_csr k' = me + 4"
proof -
  have no_panic: "panic_exception name me mt k \<noteq> Return frame' k'" for name
    by (auto simp: panic_exception_def panic_at_def elim!: then_returnE)
  consider "\<exists>name. handle_access_fault name me mt frame k = Return frame' k'" "c \<in> {1, 5, 7}"
    | "c \<in> {3, 9, 11}" "\<exists>args. then_comp (println args) (then_comp (write_mepc (me + 4)) (ret frame)) k = Return frame' k'"
    | "c = 8" "bind_comp (handle_syscall frame) (\<lambda>f. then_comp (write_mepc (me + 4)) (ret f)) k = Return frame' k'"
    using assms no_panic
    by (auto simp: handle_exception_def then_panic_at split: if_splits)
  then show ?thesis
  proof cases
    case 1
    then show ?thesis by (auto elim!: access_fault_returns intro: fault)
  next
    case 2
    then show ?thesis by (auto dest: step_over_returns intro: step_over)
  next
    case 3
    from 3(2) obtain f k1 where ret: "handle_syscall frame k = Return f k1"
      "then_comp (write_mepc (me + 4)) (ret f) k1 = Return frame' k'"
      by (auto elim!: bind_returnE)
    obtain b where b: "f = v_served b frame" "kept k k1" by (rule handle_syscall_returns [OF ret(1)])
    show ?thesis using 3(1) b(1) mepc_returns [OF ret(2) b(2)] by (intro call [of b]) simp_all
  qed
qed

text \<open>The kernel's part of a trap implements the abstract one.\<close>

lemma kvms_kept: "kept k k' \<Longrightarrow> kvms frame k' = kvms frame k"
  by (simp add: kvms_def kept_def)

lemma kvms_returned:
  assumes inv: "sched_inv k" and same: "SCHEDULER k' = SCHEDULER k" "mstatus_csr k' = mstatus_csr k"
  obtains (boot) "v_current (kvms frame k) = None" "kvms frame' k' = kvms frame k"
    | (task) c u where "v_current (kvms frame k) = Some c" "v_tasks (kvms frame k) c = Some u"
      "v_regs u = frame" "v_pc u = mepc_csr k"
      "kvms frame' k' = (kvms frame k)\<lparr>v_tasks := (v_tasks (kvms frame k))
         (c \<mapsto> u\<lparr>v_regs := frame', v_pc := mepc_csr k'\<rparr>)\<rparr>"
proof (cases "current (SCHEDULER k)")
  case None
  then show ?thesis using same by (intro boot) (simp_all add: kvms_def vm_of_def cong: if_cong)
next
  case (Some c)
  obtain t where t: "c < MAX_TASKS" "tasks (SCHEDULER k) ! c = Some t" by (rule current_task [OF inv Some])
  show ?thesis
    using Some t same
    by (intro task) (auto simp: kvms_def vm_of_def Let_def fun_eq_iff intro!: vsystem.equality)
qed

lemma interrupt_refines:
  assumes inv: "sched_inv k" and ret: "handle_interrupt c frame k = Return frame' k'"
  shows "vm_trap (if c = 7 then Tick else Interrupt) (kvms frame k) (kvms frame' k')"
proof (cases "c = 7")
  case True
  obtain k1 where k1: "kept k k1" "schedule frame k1 = Return frame' k'"
    by (rule tick_returns) (use ret True in simp)
  have "sched_inv k1" using inv k1(1) by (simp add: kept_def)
  from schedule_vm_trap [OF this k1(2)] show ?thesis using True by (simp add: kvms_kept [OF k1(1)])
next
  case False
  then show ?thesis
    using other_interrupt_returns [OF ret] kvms_kept [of k k' frame] vm_trap.resume by simp
qed

lemma exception_refines:
  assumes inv: "sched_inv k" and ret: "handle_exception c (mepc_csr k) mt frame k = Return frame' k'"
    and boot: "current (SCHEDULER k) = None \<longrightarrow> return_privilege (mstatus_csr k) = M_mode"
  shows "vm_trap (if c \<in> {1, 5, 7} then Fault else if c = 8 then Call else if c \<in> {3, 9, 11} then Step_over else Fatal)
    (kvms frame k) (kvms frame' k')"
  using ret
proof (cases rule: exception_returns)
  case (fault k1)
  have level: "return_privilege (mstatus_csr k1) = U_mode"
    using fault(2,3) by (simp add: return_privilege_def kept_def)
  then obtain d where d: "current (SCHEDULER k1) = Some d"
    using boot fault(3) by (cases "current (SCHEDULER k1)") (auto simp: kept_def)
  have "sched_inv k1" using inv fault(3) by (simp add: kept_def)
  from kill_current_vm_trap [OF this d level fault(4)] show ?thesis
    using fault(1) by (simp add: kvms_kept [OF fault(3)])
next
  case (call b)
  show ?thesis
    using inv call(3,4)
  proof (cases rule: kvms_returned [of _ _ frame frame'])
    case boot
    then show ?thesis using vm_trap.boot_code [of "kvms frame k" Call] call(1) by simp
  next
    case (task d u)
    then show ?thesis using vm_trap.serve [OF task(1,2), of b] call(1,2,5) by simp
  qed
next
  case step_over
  show ?thesis
    using inv step_over(3,4)
  proof (cases rule: kvms_returned [of _ _ frame frame'])
    case boot
    then show ?thesis using vm_trap.boot_code [of "kvms frame k" Step_over] step_over(1) by auto
  next
    case (task d u)
    have "u\<lparr>v_regs := frame', v_pc := mepc_csr k'\<rparr> = u\<lparr>v_pc := v_pc u + 4\<rparr>"
      using task(3,4) step_over(2,5) by (intro vtask.equality) simp_all
    then show ?thesis using vm_trap.advance [OF task(1,2)] task(5) step_over(1) by auto
  qed
qed

lemma trap_handler_refines:
  assumes "sched_inv k" "trap_handler frame k = Return frame' k'"
    and "current (SCHEDULER k) = None \<longrightarrow> return_privilege (mstatus_csr k) = M_mode"
  shows "vm_trap (kind_of (mcause_csr k)) (kvms frame k) (kvms frame' k')"
  using interrupt_refines [OF assms(1)] exception_refines [OF assms(1) _ assms(3)] assms(2)
  by (cases "bit (mcause_csr k) 63") (simp_all add: trap_handler_run kind_of_def Let_def)

section \<open>The system\<close>

lemma kvms_take_trap: "kvms (frame_of_regs (gpr s)) (take_trap cause tval s) = vms s"
  by (simp add: kvms_def vms_def)

lemma vms_mret:
  "vms (exec_mret (s\<lparr>gpr := regs_of_frame frame, mem := m, mscratch_csr := w\<rparr>)) = kvms frame s"
  for frame :: TrapFrame
  by (simp add: kvms_def vms_def)

lemma enter_kernel_refines:
  fixes s :: "'a cpu_scheme"
  assumes run: "running L f s" and ret: "enter_kernel leaves cause tval s = Return () s'"
  shows "vm_trap (kind_of cause) (vms s) (vms s')"
proof -
  let ?k = "take_trap cause tval s" and ?f = "frame_of_regs (gpr s)"
  obtain fr k' where h: "trap_handler ?f ?k = Return fr k'"
    using ret trap_vector_stops [of ?k] by (cases "trap_handler ?f ?k") (auto simp: enter_kernel_def Let_def)
  obtain m where "enter_kernel leaves cause tval s =
      Return () (exec_mret (k'\<lparr>gpr := regs_of_frame fr, mem := m, mscratch_csr := gpr s SP\<rparr>))"
    by (rule enter_kernel_run [OF h])
  then have "vms s' = kvms fr k'" using ret by (simp add: vms_mret del: exec_mret_sel)
  moreover have "sched_inv ?k" "current (SCHEDULER ?k) = None \<longrightarrow> return_privilege (mstatus_csr ?k) = M_mode"
    using run by (simp_all add: running_def kernel_inv_def identities_def)
  then have "vm_trap (kind_of (mcause_csr ?k)) (kvms ?f ?k) (kvms fr k')"
    using trap_handler_refines [OF _ h] by simp
  ultimately show ?thesis by (simp add: kvms_take_trap)
qed

lemma compute_refines:
  assumes inv: "sched_inv s"
  shows "vm_step (vms s) (vms (s\<lparr>gpr := g, pc := p, mem := m\<rparr>))"
proof (cases "current (SCHEDULER s)")
  case None
  then have "vms (s\<lparr>gpr := g, pc := p, mem := m\<rparr>) = vms s" by (simp add: vms_def vm_of_def cong: if_cong)
  then show ?thesis using vm_step.idle by simp
next
  case (Some c)
  obtain t where t: "c < MAX_TASKS" "tasks (SCHEDULER s) ! c = Some t" by (rule current_task [OF inv Some])
  then obtain u where u: "v_tasks (vms s) c = Some u" by (simp add: vms_def vm_of_def Let_def)
  have "vms (s\<lparr>gpr := g, pc := p, mem := m\<rparr>) =
      (vms s)\<lparr>v_tasks := (v_tasks (vms s))(c \<mapsto> u\<lparr>v_regs := frame_of_regs g, v_pc := p\<rparr>)\<rparr>"
    using Some t u by (auto simp: vms_def vm_of_def Let_def fun_eq_iff intro!: vsystem.equality)
  moreover have "v_current (vms s) = Some c" using Some by (simp add: vms_def)
  ultimately show ?thesis using vm_step.run [OF _ u] by simp
qed

lemma step_refines:
  assumes "running L f s" "system_step s s'"
  shows "vm_step (vms s) (vms s')"
  using assms(2)
proof (cases rule: system_stepE)
  case (compute g p m)
  then show ?thesis using compute_refines [of s] assms(1) by (simp add: running_def kernel_inv_def)
next
  case (device t vs)
  then have "vms s' = vms s" by (simp add: vms_def)
  then show ?thesis using vm_step.idle by simp
next
  case (trap leaves cause tval)
  then show ?thesis using vm_step.trap [OF enter_kernel_refines [OF assms(1)]] by blast
qed

text \<open>
  A simulation: a system with an invariant, an abstraction of its states, and an abstract system
  that can make the abstraction of every step.
\<close>

locale simulation = safety_invariant +
  fixes ainit :: "'t \<Rightarrow> bool" and astep :: "'t \<Rightarrow> 't \<Rightarrow> bool" and abs_state :: "'a \<Rightarrow> 't"
  assumes abs_initial: "init s \<Longrightarrow> ainit (abs_state s)"
    and abs_step: "I s \<Longrightarrow> step s s' \<Longrightarrow> astep (abs_state s) (abs_state s')"
begin

lemma refines: "reach init step s \<Longrightarrow> reach ainit astep (abs_state s)"
  by (induction rule: reach.induct) (auto intro: reach.intros abs_initial abs_step always)

end

interpretation vm: simulation "\<lambda>s. X s \<and> running L f s" system_step "running L f"
  "\<lambda>A. \<exists>s. X s \<and> A = vms s" vm_step vms for X L f
  by unfold_locales (auto intro: running_step step_refines)

lemma reach_mono: "reach init step s \<Longrightarrow> (\<And>s. init s \<Longrightarrow> init' s) \<Longrightarrow> reach init' step s"
  by (induction rule: reach.induct) (auto intro: reach.intros)

text \<open>The tasks as the kernel boots them: at their entry points, on stacks of their own.\<close>

definition fresh_vtask :: "u64 \<Rightarrow> u64 \<Rightarrow> privilege \<Rightarrow> PmpRegion list \<Rightarrow> vtask" where
  "fresh_vtask e stack p regions =
     \<lparr>v_regs = zero_frame\<lparr>sp := stack + 8192\<rparr>, v_pc = e, v_level = p, v_regions = regions, v_alive = True\<rparr>"

definition boot_vms :: "boot_env \<Rightarrow> vsystem" where
  "boot_vms E =
     (let stack = (\<lambda>n. stack_of (boot_heap E n));
          regions = (\<lambda>n mmio. b_regions (built
            (user_regions (sym_user_text_start (symbols E), 0x1000) (stack n) mmio)))
      in \<lparr>v_tasks = [
            0 \<mapsto> fresh_vtask (idle_entry E) (stack 0) M_mode (cfg_regions PmpConfig_empty),
            1 \<mapsto> fresh_vtask (echo_entry E) (stack 1) U_mode (regions 1 [(UART_BASE, 0x1000)]),
            2 \<mapsto> fresh_vtask (violation_entry E) (stack 2) U_mode (regions 2 [])],
          v_current = None\<rparr>)"

lemma vms_boot:
  assumes s: "SCHEDULER s = boot_sched E"
  shows "vms s = boot_vms E"
proof -
  have fresh: "frame_of (TaskContext_new_umode e p) = zero_frame\<lparr>sp := p\<rparr>"
    "frame_of (TaskContext_new_mmode e p) = zero_frame\<lparr>sp := p\<rparr>" for e p
    by (simp_all add: zero_frame_def frame_of_def TrapFrame.defs TaskContext_new_umode_def TaskContext_new_mmode_def)
  have entry: "mepc (TaskContext_new_umode e p) = e" "mepc (TaskContext_new_mmode e p) = e" for e p
    by (simp_all add: TaskContext_new_umode_def TaskContext_new_mmode_def)
  have "v_tasks (vms s) i = v_tasks (boot_vms E) i" for i
  proof -
    consider "i = 0" | "i = 1" | "i = 2" | "i = 3" | "MAX_TASKS \<le> i" unfolding MAX_TASKS_def by linarith
    then show ?thesis
      by cases (simp_all add: s vms_def vm_of_def boot_vms_def boot_sched_def boot_table_def boot_tasks_def Let_def
          make_ready_def user_task_of_def machine_task_of_def fresh entry return_privilege_new alive_def
          fresh_vtask_def build_def MAX_TASKS_def)
  qed
  then show ?thesis by (auto simp: s vms_def boot_vms_def boot_sched_def Let_def intro!: vsystem.equality)
qed

lemma system_vms:
  assumes L: "linker_ok (symbols E)" and s: "reach (system_init E) system_step s"
  shows "reach (\<lambda>A. A = boot_vms E) vm_step (vms s)" "running (symbols E) (boot_identity E) s"
proof -
  have "reach (\<lambda>s. system_init E s \<and> running (symbols E) (boot_identity E) s) system_step s"
    by (rule reach_mono [OF s]) (simp add: system_init_running [OF L])
  then have "reach (\<lambda>A. \<exists>s. system_init E s \<and> A = vms s) vm_step (vms s)" by (rule vm.refines)
  then show "reach (\<lambda>A. A = boot_vms E) vm_step (vms s)"
    by (rule reach_mono) (auto dest: system_init_table [OF L] intro: vms_boot)
  show "running (symbols E) (boot_identity E) s" using sys.always [OF s] L by blast
qed

text \<open>
  C2: The system implements the abstract machine in which every task has a processor of its own.
  Every state reachable from the entry point stands for an abstract state reachable from the
  three tasks at their entry points, with steps in which only the current task's registers and
  program counter change. A trap of any cause, through the trap vector, the handler, the
  scheduler and the return, is one abstract step of that cause's kind: a tick passes the hart to a live
  task and changes no task, another interrupt changes nothing, an access fault of a user task
  ends that task and only that task, a system call steps over the instruction and can change only
  the result register, and no other exception returns.
\<close>

theorem system_refines_tasks:
  assumes "linker_ok (symbols E)" "reach (system_init E) system_step s"
  shows "reach (\<lambda>A. A = boot_vms E) vm_step (vms s) \<and>
    (\<forall>leaves cause tval s'. enter_kernel leaves cause tval s = Return () s' \<longrightarrow>
       vm_trap (kind_of cause) (vms s) (vms s'))"
  using system_vms [OF assms] enter_kernel_refines by blast

theorem system_refines_tasks_witness:
  "\<exists>s (s' :: cpu). reach (system_init example_env) system_step s \<and> v_current (vms s) = None \<and>
     vm_trap Tick (vms s) (vms s') \<and> v_current (vms s') = Some 1 \<and> v_tasks (vms s') = v_tasks (vms s)"
proof -
  have L: "linker_ok (symbols example_env)" by (simp add: example_env_def linker_example_ok)
  obtain s s' where s: "reach (system_init example_env) system_step s" "SCHEDULER s = boot_sched example_env"
    "enter_kernel (\<lambda>_. (\<lambda>_. 0, \<lambda>_. 0)) (interrupt_cause 7) 0 s = Return () s'" "current (SCHEDULER s') = Some 1"
    by (rule system_ticks [OF L])
  have "kind_of (interrupt_cause 7) = Tick" by (simp add: kind_of_def interrupt_decode)
  then have tick: "vm_trap Tick (vms s) (vms s')" using system_refines_tasks [OF L s(1)] s(3) by metis
  then have "v_tasks (vms s') = v_tasks (vms s)" by (rule vm_trapE) auto
  moreover have "v_current (vms s) = None" "v_current (vms s') = Some 1"
    using s(2,4) by (simp_all add: vms_def boot_sched_def)
  ultimately show ?thesis using tick s(1) by blast
qed

section \<open>Life after death\<close>

text \<open>A task that is not alive and not current is out of the game, in the abstract machine.\<close>

lemma v_choice_live: "v_choice A n \<Longrightarrow> v_current A \<noteq> Some c \<Longrightarrow> \<not> v_live A c \<Longrightarrow> n \<noteq> Some c"
  by (auto simp: v_choice_def)

lemma vm_frozen: "safety_invariant (\<lambda>A. A = Z \<and> v_tasks A c = Some t \<and> \<not> v_alive t \<and> v_current A \<noteq> Some c) vm_step
    (\<lambda>A. v_tasks A c = Some t \<and> \<not> v_alive t \<and> v_current A \<noteq> Some c)"
proof
  fix A B
  assume A: "v_tasks A c = Some t \<and> \<not> v_alive t \<and> v_current A \<noteq> Some c" and "vm_step A B"
  from this(2) show "v_tasks B c = Some t \<and> \<not> v_alive t \<and> v_current B \<noteq> Some c"
  proof cases
    case (trap kind)
    from trap show ?thesis
    proof cases
      case (preempt n)
      then show ?thesis using A v_choice_live [of A n c] by (simp add: v_live_def)
    next
      case (kill d u B' n)
      then show ?thesis using A v_choice_live [of B' n c] by (simp add: v_live_def)
    qed (use A in auto)
  qed (use A in auto)
qed simp

lemma killed_vm:
  assumes "vm_trap Fault A B" "v_current A = Some c" "v_live A j" "j \<noteq> c"
  obtains t where "v_tasks B c = Some t" "\<not> v_alive t" "v_current B \<noteq> Some c"
  using assms(1)
proof cases
  case (kill d t B' n)
  then have "v_live B' j" "\<not> v_live B' c" "v_current B' = Some c"
    using assms(2-4) by (auto simp: v_live_def split: option.splits)
  then have "n \<noteq> Some c" using kill(6) by (auto simp: v_choice_def)
  then show ?thesis using kill assms(2) by (intro that [of "t\<lparr>v_alive := False\<rparr>"]) auto
qed simp_all

text \<open>
  C9: A killed task stays dead. When a reachable system takes an access fault of a task, and some
  other task is alive, then from the return of that trap on, whatever programs, devices and
  traps do, the task is never current and never alive again, and its registers, program counter,
  level and regions stay what they were when it was killed.
\<close>

theorem killed_task_frozen:
  assumes "linker_ok (symbols E)" "reach (system_init E) system_step s"
    and "current (SCHEDULER s) = Some c" "v_live (vms s) j" "j \<noteq> c"
    and "kind_of cause = Fault" "enter_kernel leaves cause tval s = Return () dead"
    and "reach (\<lambda>x. x = dead) system_step later"
  shows "current (SCHEDULER later) \<noteq> Some c \<and> \<not> v_live (vms later) c \<and> v_tasks (vms later) c = v_tasks (vms dead) c"
proof -
  note run = system_vms(2) [OF assms(1,2)]
  have "vm_trap Fault (vms s) (vms dead)" using enter_kernel_refines [OF run assms(7)] assms(6) by simp
  moreover have "v_current (vms s) = Some c" using assms(3) by (simp add: vms_def)
  ultimately obtain t where t: "v_tasks (vms dead) c = Some t" "\<not> v_alive t" "v_current (vms dead) \<noteq> Some c"
    using assms(4,5) by (rule killed_vm)
  have "reach (\<lambda>x. x = dead \<and> running (symbols E) (boot_identity E) x) system_step later"
    by (rule reach_mono [OF assms(8)]) (use running_trap [OF run assms(7)] in simp)
  then have "reach (\<lambda>A. A = vms dead \<and> v_tasks A c = Some t \<and> \<not> v_alive t \<and> v_current A \<noteq> Some c) vm_step (vms later)"
    by (rule reach_mono [OF vm.refines]) (use t in auto)
  from safety_invariant.always [OF vm_frozen this] t(1) show ?thesis by (simp add: vms_def v_live_def)
qed

lemma echo_task_faults:
  assumes L: "linker_ok (symbols E)"
  obtains s dead where "reach (system_init E) system_step s" "current (SCHEDULER s) = Some 1" "v_live (vms s) 0"
    "enter_kernel leaves 5 0 s = Return () dead"
proof -
  obtain s0 s' where s: "reach (system_init E) system_step s0" "SCHEDULER s0 = boot_sched E"
    "enter_kernel leaves (interrupt_cause 7) 0 s0 = Return () s'" "current (SCHEDULER s') = Some 1"
    by (rule system_ticks [OF L])
  let ?s = "s'\<lparr>mtime := 0, uart_in := replicate 288 0x20\<rparr>"
  have r: "reach (system_init E) system_step ?s"
    using reach.continue [OF s(1) system_step.trap [OF s(3)]] system_step.device by (rule reach.continue)
  note run = system_vms(2) [OF L this]
  have "vm_trap Tick (vms s0) (vms s')"
    using enter_kernel_refines [OF system_vms(2) [OF L s(1)] s(3)] by (simp add: kind_of_def interrupt_decode)
  then have "v_tasks (vms s') = v_tasks (boot_vms E)" unfolding vms_boot [OF s(2)] by (rule vm_trapE) auto
  then have "v_live (vms ?s) 0" by (simp add: v_live_def vms_def boot_vms_def Let_def fresh_vtask_def)
  moreover have c: "current (SCHEDULER ?s) = Some 1" using s(4) by simp
  moreover let ?k = "take_trap 5 0 ?s"
  have "288 \<le> tx_budget ?s" using example_budget [of 288] by (simp add: tx_budget_def)
  then have "kernel_inv (symbols E) ?k" "\<not> bit (mcause_csr ?k) 63" "take_bit 63 (mcause_csr ?k) \<in> {1, 5, 7}"
    "mpp_of (mstatus_csr ?k) = 0" "current (SCHEDULER ?k) = Some 1" "288 \<le> tx_budget ?k"
    using run running_level [OF run] c by (simp_all add: running_def exception_small privilege_bits_def)
  then obtain f k' where "trap_handler (frame_of_regs (gpr ?s)) ?k = Return f k'" by (rule user_fault_returns)
  then obtain m where "enter_kernel leaves 5 0 ?s =
      Return () (exec_mret (k'\<lparr>gpr := regs_of_frame f, mem := m, mscratch_csr := gpr ?s SP\<rparr>))"
    by (rule enter_kernel_run)
  ultimately show ?thesis using r by (intro that)
qed

theorem killed_task_frozen_witness:
  "\<exists>s dead. reach (system_init example_env) system_step s \<and> current (SCHEDULER s) = Some 1 \<and>
     enter_kernel (\<lambda>_. (\<lambda>_. 0, \<lambda>_. 0)) 5 0 s = Return () dead \<and> \<not> v_live (vms dead) 1 \<and> current (SCHEDULER dead) \<noteq> Some 1"
proof -
  have L: "linker_ok (symbols example_env)" by (simp add: example_env_def linker_example_ok)
  obtain s dead where s: "reach (system_init example_env) system_step s" "current (SCHEDULER s) = Some 1"
    "v_live (vms s) 0" "enter_kernel (\<lambda>_. (\<lambda>_. 0, \<lambda>_. 0)) 5 0 s = Return () dead"
    by (rule echo_task_faults [OF L])
  have "kind_of 5 = Fault" by (simp add: kind_of_def exception_small)
  from killed_task_frozen [OF L s(1-3) _ this s(4) reach.start] s show ?thesis by auto
qed

end
