(* ===== verification/Test_Macro.thy ===== *)
theory Test_Macro
  imports Prelude
begin

text \<open>
  The attribute macro \<open>cyptos_test\<close> of \<open>crates/cyptos-test-macros/src/lib.rs\<close>, and what the compiler
  makes of its output.

  Token streams, functions and parse errors are types of the compiler and of the \<open>syn\<close> crate; the
  parser of function items is a parameter. The two attributes the macro adds are conditional on
  the target architecture, and the compiler resolves such conditions before it collects tests.
\<close>

datatype cfg = Target_arch string | Not cfg

primrec holds :: "string \<Rightarrow> cfg \<Rightarrow> bool" where
  "holds arch (Target_arch a) = (arch = a)"
| "holds arch (Not c) = (\<not> holds arch c)"

datatype attribute = Cfg_attr cfg attribute | Attr string

datatype ('fn, 'err) expansion = Compile_error 'err | Item "attribute list" 'fn

definition cyptos_test ::
    "('tokens \<Rightarrow> 'err + 'fn) \<Rightarrow> 'tokens \<Rightarrow> 'tokens \<Rightarrow> ('fn, 'err) expansion" where
  "cyptos_test parse_item_fn attr item = (case parse_item_fn item of
      Inl err \<Rightarrow> Compile_error err
    | Inr input \<Rightarrow> Item
        [Cfg_attr (Not (Target_arch ''riscv64'')) (Attr ''test''),
         Cfg_attr (Target_arch ''riscv64'') (Attr ''test_case'')] input)"

fun resolve :: "string \<Rightarrow> attribute \<Rightarrow> string list" where
  "resolve arch (Attr a) = [a]"
| "resolve arch (Cfg_attr c a) = (if holds arch c then resolve arch a else [])"

text \<open>
  The functions a build collects: the host's harness takes those marked \<open>test\<close>, the custom
  framework of the bare machine those marked \<open>test_case\<close>. A compile error ends the build.
\<close>

definition harness :: "string \<Rightarrow> string" where
  "harness arch = (if arch = ''riscv64'' then ''test_case'' else ''test'')"

fun collect :: "string \<Rightarrow> ('fn, 'err) expansion list \<Rightarrow> 'err + 'fn list" where
  "collect arch [] = Inr []"
| "collect arch (Compile_error e # es) = Inl e"
| "collect arch (Item as f # es) =
     map_sum id ((@) (replicate (count_list (concat (map (resolve arch) as)) (harness arch)) f)) (collect arch es)"

text \<open>The first item the parser refuses is the error of the build.\<close>

fun parse_all :: "('tokens \<Rightarrow> 'err + 'fn) \<Rightarrow> 'tokens list \<Rightarrow> 'err + 'fn list" where
  "parse_all p [] = Inr []"
| "parse_all p (t # ts) = (case p t of Inl e \<Rightarrow> Inl e | Inr f \<Rightarrow> map_sum id ((#) f) (parse_all p ts))"

text \<open>
  On every target each annotated function is collected exactly once and in order, whatever the
  arguments of the attribute, and a build fails exactly on an item that is not a function.
\<close>

lemma cyptos_test_registers:
  "collect arch (map (\<lambda>(attr, item). cyptos_test p attr item) xs) = parse_all p (map snd xs)"
proof (induction xs)
  case (Cons x xs)
  then show ?case
    by (cases x; cases "p (snd x)"; cases "parse_all p (map snd xs)")
      (auto simp: cyptos_test_def harness_def)
qed simp

end
