(* ===== verification/Test_Framework.thy ===== *)
theory Test_Framework
  imports Trap_Asm Test_Macro
begin

text \<open>
  The test framework, \<open>crates/cyptos-test/src/lib.rs\<close>, and the unit tests of that crate with those of
  the selection policy, \<open>crates/kernel/src/sched/policy.rs\<close>.

  A test is its name and its body; the runner announces it, runs it and confirms it. The crate is
  built for two targets, the bare machine and the development host, with an output and two ends
  of a run for each; the code above them is the same, and is defined over the output and the end it
  is compiled with. An end of a run does not return, which is the outcome \<open>Hang\<close>.
\<close>

section \<open>The bare machine\<close>

primrec print_bytes :: "u8 list \<Rightarrow> ('a hart_scheme, unit) comp" where
  "print_bytes [] = skip"
| "print_bytes (b # bs) = then_comp (write_volatile8 0x10000000 b) (print_bytes bs)"

definition print_str :: "string \<Rightarrow> ('a hart_scheme, unit) comp" where
  "print_str s = print_bytes (bytes s)"

definition write_volatile32 :: "u64 \<Rightarrow> u32 \<Rightarrow> ('a hart_scheme, unit) comp" where
  "write_volatile32 addr v =
     modify (\<lambda>h. h\<lparr>mmio_trace := mmio_trace h @ [MmioWrite32 addr v]\<rparr>)"

definition exit_success :: "('a hart_scheme, unit) comp" where
  "exit_success = then_comp (write_volatile32 0x100000 0x5555) Hang"

definition exit_failure :: "('a hart_scheme, unit) comp" where
  "exit_failure = then_comp (write_volatile32 0x100000 (push_bit 16 1 OR 0x3333)) Hang"

section \<open>The development host\<close>

text \<open>A process of the host, as far as the crate acts on it.\<close>

record host_process =
  stderr_bytes :: "u8 list"
  exit_code :: "int option"

definition host_print_str :: "string \<Rightarrow> ('a host_process_scheme, unit) comp" where
  "host_print_str s = modify (\<lambda>p. p\<lparr>stderr_bytes := stderr_bytes p @ bytes s\<rparr>)"

definition process_exit :: "int \<Rightarrow> ('a host_process_scheme, unit) comp" where
  "process_exit code = then_comp (modify (\<lambda>p. p\<lparr>exit_code := Some code\<rparr>)) Hang"

definition host_exit_success :: "('a host_process_scheme, unit) comp" where
  "host_exit_success = process_exit 0"

definition host_exit_failure :: "('a host_process_scheme, unit) comp" where
  "host_exit_failure = process_exit 1"

section \<open>Printing numbers\<close>

function print_fill :: "u64 \<Rightarrow> u8 list \<Rightarrow> nat \<Rightarrow> ('s, u8 list \<times> nat) comp" where
  "print_fill n buf i =
     (if n > 0 then
        if i < length buf
        then print_fill (n div 10) (buf[i := 0x30 + ucast (n mod 10)]) (i + 1)
        else panic_at ''crates/cyptos-test/src/lib.rs'' 134 ''index out of bounds''
      else ret (buf, i))"
  by pat_completeness auto
termination
  by (relation "measure (\<lambda>(n, buf, i). unat n)")
    (auto simp: unat_div word_less_nat_alt)

declare print_fill.simps [simp del]

primrec print_drain :: "(string \<Rightarrow> ('s, unit) comp) \<Rightarrow> u8 list \<Rightarrow> nat \<Rightarrow> ('s, unit) comp" where
  "print_drain out buf 0 = skip"
| "print_drain out buf (Suc i) =
     (if i < length buf then then_comp (out [char_of (unat (buf ! i))]) (print_drain out buf i)
      else panic_at ''crates/cyptos-test/src/lib.rs'' 141 ''range end index out of range'')"

definition print_dec :: "(string \<Rightarrow> ('s, unit) comp) \<Rightarrow> u64 \<Rightarrow> ('s, unit) comp" where
  "print_dec out n =
     (if n = 0 then out ''0''
      else bind_comp (print_fill n (replicate 20 0) 0) (\<lambda>(buf, i). print_drain out buf i))"

section \<open>The runner\<close>

type_synonym 's testable = "string \<times> ('s, unit) comp"

definition run_test :: "(string \<Rightarrow> ('s, unit) comp) \<Rightarrow> 's testable \<Rightarrow> ('s, unit) comp" where
  "run_test out t = block [
     out ''test '',
     out (fst t),
     out '' ... '',
     snd t,
     out (''[ok]'' @ newline)]"

definition runner ::
    "(string \<Rightarrow> ('s, unit) comp) \<Rightarrow> ('s, unit) comp \<Rightarrow> 's testable list \<Rightarrow> ('s, unit) comp" where
  "runner out exit_ok tests = block [
     out (newline @ ''running ''),
     print_dec out (of_nat (length tests)),
     if length tests = 1 then out ('' test'' @ newline) else out ('' tests'' @ newline),
     block (map (run_test out) tests),
     out (newline @ ''test result: ok. ''),
     print_dec out (of_nat (length tests)),
     out ('' passed; 0 failed'' @ newline @ newline),
     exit_ok]"

text \<open>The panic handler exists on the bare machine only; on the host a panic unwinds.\<close>

definition test_panic_handler :: "panic_info \<Rightarrow> ('a hart_scheme, unit) comp" where
  "test_panic_handler info = block [
     print_str (''[FAILED]'' @ newline @ newline),
     print_str ''  panicked at '',
     print_str (panic_file info),
     print_str '':'',
     print_dec print_str (of_nat (panic_line info)),
     print_str newline,
     exit_failure]"

definition test_main :: "'a hart_scheme testable list \<Rightarrow> ('a hart_scheme, unit) comp" where
  "test_main tests h = (case runner print_str exit_success tests h of
      Panic info h' \<Rightarrow> test_panic_handler info h'
    | out \<Rightarrow> out)"

section \<open>What a run reports\<close>

interpretation printed: digit_filler print_fill 10 dec_digit
proof
  show "1 < unat (10 :: u64)" by simp
next
  fix buf i and s :: 'a
  show "print_fill 0 buf i s = Return (buf, i) s" by (simp add: print_fill.simps ret_def)
next
  fix n :: u64 and i and buf :: "u8 list" and s :: 'a
  assume n: "0 < n" and i: "i < length buf"
  have "unat n mod unat (10 :: u64) = unat (n mod 10)" by (simp add: unat_mod)
  then have "dec_digit (unat n mod unat (10 :: u64)) = 0x30 + ucast (n mod 10)"
    unfolding dec_digit_def by (simp only: of_nat_unat)
  then show "print_fill n buf i s =
    print_fill (n div 10) (buf[i := dec_digit (unat n mod unat (10 :: u64))]) (i + 1) s"
    using n i by (subst print_fill.simps) simp
qed

text \<open>
  A suite given by the outcome of each test: \<open>None\<close> for a test that passes, or the panic it
  ends in. The report of the suite stops at the first panic.
\<close>

definition test_body :: "panic_info option \<Rightarrow> ('s, unit) comp" where
  "test_body r s = (case r of None \<Rightarrow> Return () s | Some info \<Rightarrow> Panic info s)"

definition suite :: "(string \<times> panic_info option) list \<Rightarrow> 's testable list" where
  "suite ts = map (\<lambda>(name, r). (name, test_body r)) ts"

definition first_failure :: "(string \<times> panic_info option) list \<Rightarrow> panic_info option" where
  "first_failure ts = (case filter (\<lambda>t. snd t \<noteq> None) ts of [] \<Rightarrow> None | t # _ \<Rightarrow> snd t)"

fun test_lines :: "(string \<times> panic_info option) list \<Rightarrow> u8 list" where
  "test_lines [] = []"
| "test_lines ((name, r) # ts) = bytes (''test '' @ name @ '' ... '') @
     (if r = None then bytes (''[ok]'' @ newline) @ test_lines ts else [])"

definition progress :: "(string \<times> panic_info option) list \<Rightarrow> u8 list" where
  "progress ts = bytes (newline @ ''running '') @ dec_bytes (length ts mod 2 ^ 64) @
     bytes ((if length ts = 1 then '' test'' else '' tests'') @ newline) @ test_lines ts"

definition summary :: "nat \<Rightarrow> u8 list" where
  "summary n = bytes (newline @ ''test result: ok. '') @ dec_bytes (n mod 2 ^ 64) @
     bytes ('' passed; 0 failed'' @ newline @ newline)"

definition failure_note :: "panic_info \<Rightarrow> u8 list" where
  "failure_note info = bytes (''[FAILED]'' @ newline @ newline @ ''  panicked at '' @ panic_file info @ '':'') @
     dec_bytes (panic_line info mod 2 ^ 64) @ bytes newline"

definition report :: "(string \<times> panic_info option) list \<Rightarrow> u8 list" where
  "report ts = progress ts @
     (case first_failure ts of None \<Rightarrow> summary (length ts) | Some info \<Rightarrow> failure_note info)"

text \<open>The contract of a target: what it prints is appended to its output.\<close>

locale test_target =
  fixes out :: "string \<Rightarrow> ('s, unit) comp" and wrote :: "u8 list \<Rightarrow> 's \<Rightarrow> 's"
  assumes out_run: "out str s = Return () (wrote (bytes str) s)"
    and wrote_Nil: "wrote [] s = s"
    and wrote_append: "wrote cs (wrote bs s) = wrote (bs @ cs) s"
begin

lemma print_drain_run: "k \<le> length buf \<Longrightarrow> print_drain out buf k s = Return () (wrote (rev (take k buf)) s)"
proof (induction k arbitrary: s)
  case (Suc k)
  then show ?case
    by (simp add: then_comp_def bind_comp_def out_run wrote_append of_char_of_u8 take_Suc_conv_app_nth)
qed (simp add: skip_run wrote_Nil)

lemma print_dec_run: "print_dec out n s = Return () (wrote (dec_bytes (unat n)) s)"
proof (cases "n = 0")
  case True
  then show ?thesis by (simp add: print_dec_def out_run digits_small dec_digit_def)
next
  case False
  then have pos: "0 < n" by (simp add: word_neq_0_conv)
  obtain buf where "print_fill n (replicate 20 0) 0 s = Return (buf, length (dec_bytes (unat n))) s"
    "length buf = 20" "take (length (dec_bytes (unat n))) buf = rev (dec_bytes (unat n))"
    using printed.fill_digits [OF pos, of 0 "replicate 20 0" s] dec_bytes_length [of n] by auto
  then show ?thesis
    using False dec_bytes_length [of n] by (simp add: print_dec_def bind_comp_def print_drain_run)
qed

lemma run_test_run:
  "run_test out (name, test_body r) s = (case r of
      None \<Rightarrow> Return () (wrote (bytes (''test '' @ name @ '' ... '') @ bytes (''[ok]'' @ newline)) s)
    | Some info \<Rightarrow> Panic info (wrote (bytes (''test '' @ name @ '' ... '')) s))"
  by (cases r)
    (simp_all add: run_test_def then_comp_def bind_comp_def out_run wrote_append test_body_def skip_run)

lemma run_tests_run:
  "block (map (run_test out) (suite ts)) s = (case first_failure ts of
      None \<Rightarrow> Return () (wrote (test_lines ts) s)
    | Some info \<Rightarrow> Panic info (wrote (test_lines ts) s))"
proof (induction ts arbitrary: s)
  case Nil
  show ?case by (simp add: first_failure_def suite_def skip_run wrote_Nil)
next
  case (Cons t ts)
  obtain name r where t: "t = (name, r)" by (cases t)
  have "first_failure (t # ts) = (case r of None \<Rightarrow> first_failure ts | Some info \<Rightarrow> Some info)"
    by (simp add: first_failure_def t split: option.splits)
  then show ?case
    using Cons [of "wrote (bytes (''test '' @ name @ '' ... '') @ bytes (''[ok]'' @ newline)) s"]
    by (simp add: t suite_def run_test_run then_comp_def bind_comp_def wrote_append split: option.splits)
qed

lemma runner_run:
  "runner out exit_ok (suite ts) s = (case first_failure ts of
      None \<Rightarrow> exit_ok (wrote (progress ts @ summary (length ts)) s)
    | Some info \<Rightarrow> Panic info (wrote (progress ts) s))"
proof -
  have n: "unat (of_nat k :: u64) = k mod 2 ^ 64" for k by (simp add: unat_of_nat)
  have len: "length (suite ts) = length ts" by (simp add: suite_def)
  have last: "(case exit_ok s' of Return a s \<Rightarrow> skip s | Panic i s \<Rightarrow> Panic i s | Hang s \<Rightarrow> Hang s) = exit_ok s'" for s'
    by (cases "exit_ok s'") (simp_all add: skip_run)
  show ?thesis
    by (cases "first_failure ts")
      (simp_all add: runner_def then_comp_def bind_comp_def out_run print_dec_run wrote_append n len
        run_tests_run last progress_def summary_def)
qed

end

interpretation bare: test_target print_str
  "\<lambda>bs h. h\<lparr>mmio_trace := mmio_trace h @ map (MmioWrite8 0x10000000) bs\<rparr>"
proof
  fix str and s :: "'a hart_scheme"
  have "print_bytes bs h = Return () (h\<lparr>mmio_trace := mmio_trace h @ map (MmioWrite8 0x10000000) bs\<rparr>)"
    for bs and h :: "'a hart_scheme"
    by (induction bs arbitrary: h) (simp_all add: then_comp_def bind_comp_def write_volatile8_run skip_run)
  then show "print_str str s =
      Return () (s\<lparr>mmio_trace := mmio_trace s @ map (MmioWrite8 0x10000000) (bytes str)\<rparr>)"
    by (simp only: print_str_def)
qed simp_all

interpretation host: test_target host_print_str "\<lambda>bs p. p\<lparr>stderr_bytes := stderr_bytes p @ bs\<rparr>"
  by unfold_locales (simp_all add: host_print_str_def modify_def)

text \<open>
  C39: The runner tells the truth, on either target. For every suite of tests, a run on the bare machine
  prints exactly the report of the suite (its size, a line per test up to the first that panics,
  then the summary or the place of the panic) and ends by telling the machine success if no test
  panicked and failure otherwise. A run on the host prints the same report up to a panic, which
  leaves the runner, and exits with code 0 when there is none.
\<close>

theorem test_main_reports:
  fixes h :: "'a hart_scheme" and p :: "'b host_process_scheme"
  shows "test_main (suite ts) h =
    Hang (h\<lparr>mmio_trace := mmio_trace h @ map (MmioWrite8 0x10000000) (report ts) @
      [MmioWrite32 0x100000 (if first_failure ts = None then 0x5555 else 0x13333)]\<rparr>) \<and>
   runner host_print_str host_exit_success (suite ts) p = (case first_failure ts of
      None \<Rightarrow> Hang (p\<lparr>stderr_bytes := stderr_bytes p @ report ts, exit_code := Some 0\<rparr>)
    | Some info \<Rightarrow> Panic info (p\<lparr>stderr_bytes := stderr_bytes p @ progress ts\<rparr>))"
    (is "?bare \<and> ?host")
proof
  have n: "unat (of_nat k :: u64) = k mod 2 ^ 64" for k by (simp add: unat_of_nat)
  show ?bare
    by (cases "first_failure ts")
      (simp_all add: test_main_def bare.runner_run test_panic_handler_def then_comp_def bind_comp_def
        bare.out_run bare.print_dec_run exit_success_def exit_failure_def write_volatile32_def modify_def
        n report_def failure_note_def)
  show ?host
    by (cases "first_failure ts")
      (simp_all add: host.runner_run host_exit_success_def process_exit_def then_comp_def bind_comp_def
        modify_def report_def)
qed

section \<open>The unit tests\<close>

text \<open>
  These run on the development machine, where arithmetic overflow panics. \<open>assert_eq\<close> is the
  library's macro; the tests marked \<open>should_panic\<close> pass when they do.
\<close>

definition assert_eq :: "string \<Rightarrow> nat \<Rightarrow> 'b \<Rightarrow> 'b \<Rightarrow> ('s, unit) comp" where
  "assert_eq file line l r = (if l = r then skip else panic_at file line ''assertion `left == right` failed'')"

definition lib_rs :: string where "lib_rs = ''crates/cyptos-test/src/lib.rs''"
definition policy_rs :: string where "policy_rs = ''crates/kernel/src/sched/policy.rs''"

definition napot_replica :: "u64 \<Rightarrow> u64 \<Rightarrow> ('s, u64) comp" where
  "napot_replica base sz =
     (if \<not> (is_power_of_two sz \<and> 8 \<le> sz) then panic_at lib_rs 152 ''assertion failed''
      else if unat base + (unat sz div 2 - 1) < 2 ^ 64 then ret (drop_bit 2 (base + (sz div 2 - 1)))
      else panic_at lib_rs 153 ''attempt to add with overflow'')"

definition napot_test :: "nat \<Rightarrow> u64 \<Rightarrow> u64 \<Rightarrow> u64 \<Rightarrow> ('s, unit) comp" where
  "napot_test line base sz expected =
     bind_comp (napot_replica base sz) (\<lambda>r. assert_eq lib_rs line r expected)"

definition pmp_tests :: "(string \<times> bool \<times> ('s, unit) comp) list" where
  "pmp_tests = [
     (''test_napot_addr_basic'', False,
       napot_test 160 0x80200000 0x10000 (drop_bit 2 (0x80200000 + (0x10000 div 2 - 1)))),
     (''test_napot_addr_8byte'', False, napot_test 167 0x1000 8 (drop_bit 2 (0x1000 + 3))),
     (''test_napot_addr_aligned'', False,
       napot_test 176 0x1000 0x1000 (drop_bit 2 (0x1000 + (0x1000 div 2 - 1)))),
     (''test_napot_addr_large_region'', False,
       napot_test 185 0x80000000 0x1000000 (drop_bit 2 (0x80000000 + (0x1000000 div 2 - 1)))),
     (''test_napot_addr_non_power_of_two_panics'', True, then_comp (napot_replica 0x1000 12) skip),
     (''test_napot_addr_too_small_panics'', True, then_comp (napot_replica 0x1000 4) skip),
     (''test_napot_addr_one_megabyte'', False,
       napot_test 206 0x40000000 0x100000 (drop_bit 2 (0x40000000 + (0x100000 div 2 - 1))))]"

text \<open>The replica of \<open>TaskContext\<close>: fields of eight bytes in declaration order.\<close>

definition replica_fields :: "string list" where
  "replica_fields = [
     ''ra'', ''t0'', ''t1'', ''t2'', ''t3'', ''t4'', ''t5'', ''t6'', ''a0'', ''a1'', ''a2'', ''a3'',
     ''a4'', ''a5'', ''a6'', ''a7'', ''s0'', ''s1'', ''s2'', ''s3'', ''s4'', ''s5'', ''s6'', ''s7'',
     ''s8'', ''s9'', ''s10'', ''s11'', ''gp'', ''tp'', ''sp'', ''mepc'', ''mstatus'']"

definition size_of_replica :: nat where
  "size_of_replica = 8 * length replica_fields"

definition offset_of_replica :: "string \<Rightarrow> nat" where
  "offset_of_replica f = 8 * length (takeWhile (\<lambda>g. g \<noteq> f) replica_fields)"

text \<open>The replica of \<open>TaskState\<close>. The tests on it assign a state and read it back.\<close>

datatype replica_state = RCreated | RReady | RRunning | RDead

definition state_test :: "nat \<Rightarrow> replica_state \<Rightarrow> nat \<Rightarrow> replica_state \<Rightarrow> ('s, unit) comp" where
  "state_test line1 first line2 second =
     (let state = first
      in then_comp (assert_eq lib_rs line1 state first)
           (let state = second in assert_eq lib_rs line2 state second))"

definition task_tests :: "(string \<times> bool \<times> ('s, unit) comp) list" where
  "task_tests = [
     (''test_task_context_size'', False, assert_eq lib_rs 264 size_of_replica 264),
     (''test_task_context_mepc_offset'', False, assert_eq lib_rs 269 (offset_of_replica ''mepc'') 248),
     (''test_task_context_mstatus_offset'', False, assert_eq lib_rs 274 (offset_of_replica ''mstatus'') 256),
     (''test_task_context_sp_offset'', False, assert_eq lib_rs 279 (offset_of_replica ''sp'') 240),
     (''test_task_context_ra_offset'', False, assert_eq lib_rs 284 (offset_of_replica ''ra'') 0),
     (''test_task_state_created_to_ready'', False, state_test 290 RCreated 292 RReady),
     (''test_task_state_ready_to_running'', False, state_test 298 RReady 300 RRunning),
     (''test_task_state_running_to_dead'', False, state_test 306 RRunning 308 RDead),
     (''test_task_state_running_to_ready'', False, state_test 314 RRunning 316 RReady)]"

definition policy_test :: "nat \<Rightarrow> nat option \<Rightarrow> bool list \<Rightarrow> nat option \<Rightarrow> ('s, unit) comp" where
  "policy_test line cur ready expected =
     assert_eq policy_rs line (select_next_ready 4 cur (\<lambda>idx. ready ! idx)) expected"

definition policy_tests :: "(string \<times> bool \<times> ('s, unit) comp) list" where
  "policy_tests = [
     (''bootstrap_dispatches_first_normal_task'', False,
       then_comp (assert_eq policy_rs 38 (None :: nat option) None) (policy_test 39 None [True, True, False, False] (Some 1))),
     (''bootstrap_uses_idle_only_as_fallback'', False,
       policy_test 46 None [True, False, False, False] (Some IDLE_TASK_INDEX)),
     (''idle_is_skipped_during_normal_round_robin'', False,
       policy_test 56 (Some 3) [True, True, False, True] (Some 1)),
     (''idle_is_selected_only_as_fallback'', False,
       policy_test 63 (Some 2) [True, False, False, False] (Some IDLE_TASK_INDEX)),
     (''no_ready_task_returns_none'', False,
       assert_eq policy_rs 71 (select_next_ready 4 (Some 1) (\<lambda>_. False)) None)]"

definition test_passes :: "string \<times> bool \<times> ('s, unit) comp \<Rightarrow> 's \<Rightarrow> bool" where
  "test_passes t s = (case t of (name, should_panic, body) \<Rightarrow>
     (case body s of Return _ _ \<Rightarrow> \<not> should_panic | Panic _ _ \<Rightarrow> should_panic | Hang _ \<Rightarrow> False))"

lemma unit_tests_pass: "list_all (\<lambda>t. test_passes t s) (policy_tests @ pmp_tests @ task_tests)"
proof -
  have "[0..<4] = [0, 1, 2, 3::nat]" by (simp add: upt_rec)
  then have "list_all (\<lambda>t. test_passes t s) policy_tests"
    by (simp add: policy_tests_def policy_test_def assert_eq_def test_passes_def skip_run select_next_ready_def
        scan_start_def IDLE_TASK_INDEX_def Let_def then_comp_def bind_comp_def)
  moreover have "list_all (\<lambda>t. test_passes t s) pmp_tests"
    by (simp add: pmp_tests_def napot_test_def napot_replica_def assert_eq_def test_passes_def bind_comp_def
        then_comp_def panic_at_def ret_def skip_def is_power_of_two_def)
  moreover have "list_all (\<lambda>t. test_passes t s) task_tests"
    by (simp add: task_tests_def assert_eq_def test_passes_def skip_run size_of_replica_def offset_of_replica_def
        replica_fields_def state_test_def then_comp_def bind_comp_def)
  ultimately show ?thesis by simp
qed

text \<open>What makes the replicas worth testing: they agree with the kernel's code.\<close>

primrec reg_name :: "reg \<Rightarrow> string" where
  "reg_name RA = ''ra''"
| "reg_name T0 = ''t0''"
| "reg_name T1 = ''t1''"
| "reg_name T2 = ''t2''"
| "reg_name T3 = ''t3''"
| "reg_name T4 = ''t4''"
| "reg_name T5 = ''t5''"
| "reg_name T6 = ''t6''"
| "reg_name A0 = ''a0''"
| "reg_name A1 = ''a1''"
| "reg_name A2 = ''a2''"
| "reg_name A3 = ''a3''"
| "reg_name A4 = ''a4''"
| "reg_name A5 = ''a5''"
| "reg_name A6 = ''a6''"
| "reg_name A7 = ''a7''"
| "reg_name S0 = ''s0''"
| "reg_name S1 = ''s1''"
| "reg_name S2 = ''s2''"
| "reg_name S3 = ''s3''"
| "reg_name S4 = ''s4''"
| "reg_name S5 = ''s5''"
| "reg_name S6 = ''s6''"
| "reg_name S7 = ''s7''"
| "reg_name S8 = ''s8''"
| "reg_name S9 = ''s9''"
| "reg_name S10 = ''s10''"
| "reg_name S11 = ''s11''"
| "reg_name GP = ''gp''"
| "reg_name TP = ''tp''"
| "reg_name SP = ''sp''"



end
